theory Spec2Isabelle
  imports Complex_Main "HOL-Library.AList"
begin

section \<open>Data model (packages/claude-logs/src/types.ts)\<close>

text \<open>
  JavaScript numbers are modelled as \<^typ>\<open>int\<close> where the program keeps counts and
  epoch milliseconds (token counters, timestamps, file sizes, modification times) and as
  \<^typ>\<open>rat\<close> for the cost in dollars. The numbers of the program are doubles: the
  token counters are the whole numbers that a double can hold, and their sum is not the
  sum of integers but the addition of the runtime, \<open>js_plus\<close> below, which rounds.
  Strings are \<^typ>\<open>string\<close>; a \<^typ>\<open>char\<close>
  stands for one code unit below 256. An optional field (\<open>field?: T\<close>, or a field that
  the validation of \<open>parseLine\<close> allows to be absent) is an \<^typ>\<open>'a option\<close>, and so
  is \<open>T | null\<close>.
\<close>

record RawUsage =
  input_tokens :: "int option"
  output_tokens :: "int option"
  cache_creation_input_tokens :: "int option"
  cache_read_input_tokens :: "int option"

record RawMessage =
  msg_role :: "string option"
  msg_model :: "string option"
  msg_usage :: "RawUsage option"

record RawLogEntry =
  raw_uuid :: "string option"
  raw_sessionId :: "string option"
  raw_timestamp :: "string option"
  raw_message :: "RawMessage option"
  raw_costUSD :: "rat option"
  raw_gitBranch :: "string option"
  raw_cwd :: "string option"

record ParsedLogEntry =
  uuid :: string
  sessionId :: string
  projectPath :: string
  timestamp :: int
  role :: string
  model :: "string option"
  inputTokens :: int
  outputTokens :: int
  cacheCreationInputTokens :: int
  cacheReadInputTokens :: int
  totalTokens :: int
  costUsd :: rat
  gitBranch :: "string option"
  cwd :: "string option"
  filePath :: string
  fileModifiedAt :: int

record ProcessedFile =
  pf_filePath :: string
  lastModifiedAt :: int
  lastSize :: int
  lastLineCount :: nat
  processedAt :: int

record ScanError =
  err_filePath :: string
  err_line :: "nat option"
  err_error :: string

record ScanResult =
  entries :: "ParsedLogEntry list"
  filesProcessed :: nat
  filesSkipped :: nat
  entriesFound :: nat
  errors :: "ScanError list"
  configDirsUsed :: "string list"

section \<open>The JavaScript runtime the parser calls\<close>

text \<open>
  \<open>JSON.parse\<close> and \<open>new Date(s).getTime()\<close> are built into the runtime, so the
  parser takes them as parameters. \<open>JSON_parse\<close> yields \<open>Inl msg\<close> when the
  \<open>try\<close> block of \<open>parseLine\<close> throws before the first field has been read
  (a \<open>SyntaxError\<close> of \<open>JSON.parse\<close>, or the \<open>TypeError\<close> of reading a field of
  \<open>null\<close>), with \<open>msg\<close> the message of the exception, and otherwise the value cast
  to \<open>RawLogEntry\<close>, as the source casts it. \<open>Date_getTime\<close> yields \<open>None\<close> for
  \<open>NaN\<close>. \<open>js_plus\<close> is \<open>+\<close> on two numbers: the addition of doubles, which is
  the sum of the integers only as long as that sum is itself a double (every whole
  number up to \<open>2^53\<close> is; beyond, the result is rounded).
\<close>

record js_runtime =
  JSON_parse :: "string \<Rightarrow> string + RawLogEntry"
  Date_getTime :: "string \<Rightarrow> int option"
  js_plus :: "int \<Rightarrow> int \<Rightarrow> int"

subsection \<open>String primitives\<close>

definition LF :: char where
  "LF = CHR 0x0A"

text \<open>White space and line terminators removed by \<open>String.prototype.trim\<close>.\<close>

definition is_ws :: "char \<Rightarrow> bool" where
  "is_ws c \<longleftrightarrow> c \<in> {CHR 0x09, CHR 0x0A, CHR 0x0B, CHR 0x0C, CHR 0x0D, CHR 0x20, CHR 0xA0}"

definition trim :: "string \<Rightarrow> string" where
  "trim s = rev (dropWhile is_ws (rev (dropWhile is_ws s)))"

text \<open>\<open>s.split(sep)\<close> for a separator of one character; the empty string gives \<open>[""]\<close>.\<close>

fun str_split :: "char \<Rightarrow> string \<Rightarrow> string list" where
  "str_split sep [] = [[]]"
| "str_split sep (c # cs) =
     (if c = sep then [] # str_split sep cs
      else (case str_split sep cs of
              [] \<Rightarrow> [[c]]
            | l # ls \<Rightarrow> (c # l) # ls))"

text \<open>\<open>x || 0\<close> on an optional number, \<open>s || null\<close> and \<open>!s\<close> on an optional string.\<close>

definition or_zero :: "'a::zero option \<Rightarrow> 'a" where
  "or_zero x = (case x of None \<Rightarrow> 0 | Some v \<Rightarrow> (if v = 0 then 0 else v))"

definition or_null :: "string option \<Rightarrow> string option" where
  "or_null x = (case x of None \<Rightarrow> None | Some s \<Rightarrow> (if s = [] then None else Some s))"

definition falsy :: "string option \<Rightarrow> bool" where
  "falsy x \<longleftrightarrow> (case x of None \<Rightarrow> True | Some s \<Rightarrow> s = [])"

text \<open>The string held by a field that has passed the \<open>!field\<close> check.\<close>

definition str_of :: "string option \<Rightarrow> string" where
  "str_of x = (case x of None \<Rightarrow> [] | Some s \<Rightarrow> s)"

section \<open>Parser (packages/claude-logs/src/parser.ts)\<close>

definition parseLine ::
  "js_runtime \<Rightarrow> string \<Rightarrow> string \<Rightarrow> string \<Rightarrow> int \<Rightarrow> nat option
     \<Rightarrow> ParsedLogEntry option \<times> ScanError option" where
  "parseLine rt line fp pp mtime lineNumber =
     (let trimmed = trim line in
      if trimmed = [] then (None, None)
      else
        (case JSON_parse rt trimmed of
           Inl msg \<Rightarrow>
             (None, Some \<lparr>err_filePath = fp, err_line = lineNumber,
                          err_error = ''JSON parse error: '' @ msg\<rparr>)
         | Inr raw \<Rightarrow>
             if falsy (raw_uuid raw) \<or> falsy (raw_sessionId raw) \<or> falsy (raw_timestamp raw)
             then (None, Some \<lparr>err_filePath = fp, err_line = lineNumber,
                    err_error = ''Missing required fields (uuid, sessionId, or timestamp)''\<rparr>)
             else
               (case Date_getTime rt (str_of (raw_timestamp raw)) of
                  None \<Rightarrow>
                    (None, Some \<lparr>err_filePath = fp, err_line = lineNumber,
                       err_error = ''Invalid timestamp: '' @ str_of (raw_timestamp raw)\<rparr>)
                | Some ts \<Rightarrow>
                    (let usage = (case raw_message raw of
                                    None \<Rightarrow> None
                                  | Some m \<Rightarrow> msg_usage m);
                         inTok = or_zero (case usage of None \<Rightarrow> None | Some u \<Rightarrow> input_tokens u);
                         outTok = or_zero (case usage of None \<Rightarrow> None | Some u \<Rightarrow> output_tokens u);
                         ccTok = or_zero (case usage of None \<Rightarrow> None
                                          | Some u \<Rightarrow> cache_creation_input_tokens u);
                         crTok = or_zero (case usage of None \<Rightarrow> None
                                          | Some u \<Rightarrow> cache_read_input_tokens u);
                         total = js_plus rt (js_plus rt (js_plus rt inTok outTok) ccTok) crTok
                     in (Some \<lparr>uuid = str_of (raw_uuid raw),
                               sessionId = str_of (raw_sessionId raw),
                               projectPath = pp,
                               timestamp = ts,
                               role = (case or_null (case raw_message raw of None \<Rightarrow> None
                                                     | Some m \<Rightarrow> msg_role m) of
                                         None \<Rightarrow> ''unknown'' | Some r \<Rightarrow> r),
                               model = or_null (case raw_message raw of None \<Rightarrow> None
                                                | Some m \<Rightarrow> msg_model m),
                               inputTokens = inTok,
                               outputTokens = outTok,
                               cacheCreationInputTokens = ccTok,
                               cacheReadInputTokens = crTok,
                               totalTokens = total,
                               costUsd = or_zero (raw_costUSD raw),
                               gitBranch = or_null (raw_gitBranch raw),
                               cwd = or_null (raw_cwd raw),
                               filePath = fp,
                               fileModifiedAt = mtime\<rparr>, None)))))"

text \<open>
  The body of the two \<open>for\<close> loops: \<open>parse_lines rt fp pp mtime i ls\<close> runs the loop
  from index \<open>i\<close> over the remaining lines \<open>ls\<close>, the line at index \<open>i\<close> having the
  number \<open>i + 1\<close>.
\<close>

record ParseResult =
  pr_entries :: "ParsedLogEntry list"
  pr_errors :: "ScanError list"

record ParseFromLineResult = ParseResult +
  lineCount :: nat

fun parse_lines ::
  "js_runtime \<Rightarrow> string \<Rightarrow> string \<Rightarrow> int \<Rightarrow> nat \<Rightarrow> string list
     \<Rightarrow> ParsedLogEntry list \<times> ScanError list" where
  "parse_lines rt fp pp mtime i [] = ([], [])"
| "parse_lines rt fp pp mtime i (l # ls) =
     (case parseLine rt l fp pp mtime (Some (i + 1)) of
        (entry, error) \<Rightarrow>
          (case parse_lines rt fp pp mtime (Suc i) ls of
             (es, errs) \<Rightarrow>
               ((case entry of None \<Rightarrow> [] | Some e \<Rightarrow> [e]) @ es,
                (case error of None \<Rightarrow> [] | Some e \<Rightarrow> [e]) @ errs)))"

definition parseJSONLContent ::
  "js_runtime \<Rightarrow> string \<Rightarrow> string \<Rightarrow> string \<Rightarrow> int \<Rightarrow> ParseResult" where
  "parseJSONLContent rt content fp pp mtime =
     (let lines = str_split LF content in
      case parse_lines rt fp pp mtime 0 lines of
        (es, errs) \<Rightarrow> \<lparr>pr_entries = es, pr_errors = errs\<rparr>)"

definition parseJSONLContentFromLine ::
  "js_runtime \<Rightarrow> string \<Rightarrow> string \<Rightarrow> string \<Rightarrow> int \<Rightarrow> nat \<Rightarrow> ParseFromLineResult" where
  "parseJSONLContentFromLine rt content fp pp mtime startLine =
     (let lines = str_split LF content in
      case parse_lines rt fp pp mtime startLine (drop startLine lines) of
        (es, errs) \<Rightarrow> \<lparr>pr_entries = es, pr_errors = errs, lineCount = length lines\<rparr>)"

section \<open>The host: process environment and file system\<close>

text \<open>
  What the program reads from its process and from the disk at one moment. \<open>stat\<close>
  gives \<open>(mtimeMs, size)\<close> and, like \<open>readFile\<close>, \<open>Inl msg\<close> when the call
  throws. \<open>findJSONLFiles dir\<close> is the list that the recursive directory walk of the
  scanner returns for \<open>dir\<close>: the walk only reads the disk and swallows its own errors,
  so its result is part of the snapshot. \<open>path_join\<close> is \<open>join\<close> of \<open>node:path\<close>.
\<close>

record host =
  CLAUDE_CONFIG_DIR :: "string option"
  homedir :: string
  path_join :: "string list \<Rightarrow> string"
  existsSync :: "string \<Rightarrow> bool"
  findJSONLFiles :: "string \<Rightarrow> string list"
  stat :: "string \<Rightarrow> string + (int \<times> int)"
  readFile :: "string \<Rightarrow> string + string"

section \<open>Path resolver (paths.ts)\<close>

definition getClaudeConfigDirs :: "host \<Rightarrow> string list" where
  "getClaudeConfigDirs h =
     (let dirs0 = (case CLAUDE_CONFIG_DIR h of
                     None \<Rightarrow> []
                   | Some envDirs \<Rightarrow>
                       if envDirs = [] then []
                       else filter (\<lambda>p. p \<noteq> [] \<and> existsSync h p)
                              (map trim (str_split (CHR '','') envDirs)));
          legacyPath = path_join h [homedir h, ''.claude''];
          dirs1 = (if existsSync h legacyPath \<and> legacyPath \<notin> set dirs0
                   then dirs0 @ [legacyPath] else dirs0);
          xdgPath = path_join h [homedir h, ''.config'', ''claude''];
          dirs2 = (if existsSync h xdgPath \<and> xdgPath \<notin> set dirs1
                   then dirs1 @ [xdgPath] else dirs1)
      in dirs2)"

definition getProjectsDir :: "host \<Rightarrow> string \<Rightarrow> string" where
  "getProjectsDir h configDir = path_join h [configDir, ''projects'']"

text \<open>\<open>parts.join("/")\<close>.\<close>

fun str_join :: "string \<Rightarrow> string list \<Rightarrow> string" where
  "str_join sep [] = []"
| "str_join sep [x] = x"
| "str_join sep (x # y # ys) = x @ sep @ str_join sep (y # ys)"

text \<open>
  The body of the loop of \<open>extractProjectPath\<close> for one config directory: the value
  returned from inside the loop, or \<open>None\<close> when the loop goes on.
\<close>

definition projectPathUnder :: "host \<Rightarrow> string \<Rightarrow> string \<Rightarrow> string option" where
  "projectPathUnder h fp configDir =
     (let projectsDir = getProjectsDir h configDir in
      if take (length projectsDir) fp = projectsDir
      then (let relativePath = drop (length projectsDir + 1) fp;
                parts = str_split (CHR ''/'') relativePath
            in if length parts > 1 then Some (str_join ''/'' (butlast parts)) else None)
      else None)"

fun extractProjectPath :: "host \<Rightarrow> string \<Rightarrow> string list \<Rightarrow> string" where
  "extractProjectPath h fp [] = ''unknown''"
| "extractProjectPath h fp (configDir # configDirs) =
     (case projectPathUnder h fp configDir of
        Some p \<Rightarrow> p
      | None \<Rightarrow> extractProjectPath h fp configDirs)"

section \<open>Scanner (scanner.ts)\<close>

definition emptyScanResult :: ScanResult where
  "emptyScanResult =
     \<lparr>entries = [], filesProcessed = 0, filesSkipped = 0, entriesFound = 0,
      errors = [], configDirsUsed = []\<rparr>"

text \<open>The \<open>catch\<close> of the per-file \<open>try\<close>: one error without a line, one file skipped.\<close>

definition readFailed :: "ScanResult \<Rightarrow> string \<Rightarrow> string \<Rightarrow> ScanResult" where
  "readFailed acc fp msg =
     acc\<lparr>errors := errors acc @
            [\<lparr>err_filePath = fp, err_line = None,
              err_error = ''Failed to read file: '' @ msg\<rparr>],
         filesSkipped := filesSkipped acc + 1\<rparr>"

text \<open>The body of the inner loop of \<open>scanAllJSONLFiles\<close>, for one file.\<close>

definition scanFileFull ::
  "js_runtime \<Rightarrow> host \<Rightarrow> string list \<Rightarrow> ScanResult \<Rightarrow> string \<Rightarrow> ScanResult" where
  "scanFileFull rt h configDirs acc fp =
     (case stat h fp of
        Inl msg \<Rightarrow> readFailed acc fp msg
      | Inr (mtimeMs, sz) \<Rightarrow>
          (case readFile h fp of
             Inl msg \<Rightarrow> readFailed acc fp msg
           | Inr content \<Rightarrow>
               (let projectPath = extractProjectPath h fp configDirs;
                    result = parseJSONLContent rt content fp projectPath mtimeMs
                in acc\<lparr>entries := entries acc @ pr_entries result,
                       errors := errors acc @ pr_errors result,
                       filesProcessed := filesProcessed acc + 1\<rparr>)))"

definition scanAllJSONLFiles :: "js_runtime \<Rightarrow> host \<Rightarrow> ScanResult" where
  "scanAllJSONLFiles rt h =
     (let configDirs = getClaudeConfigDirs h in
      if configDirs = [] then emptyScanResult
      else
        (let acc = foldl (\<lambda>acc configDir.
                            foldl (scanFileFull rt h configDirs) acc
                              (findJSONLFiles h (getProjectsDir h configDir)))
                     (emptyScanResult\<lparr>configDirsUsed := configDirs\<rparr>) configDirs
         in acc\<lparr>entriesFound := length (entries acc)\<rparr>))"

text \<open>The body of the inner loop of \<open>scanModifiedFiles\<close>, for one file.\<close>

definition scanFileModified ::
  "js_runtime \<Rightarrow> host \<Rightarrow> string list \<Rightarrow> (string \<rightharpoonup> ProcessedFile)
     \<Rightarrow> ScanResult \<Rightarrow> string \<Rightarrow> ScanResult" where
  "scanFileModified rt h configDirs processedFiles acc fp =
     (case stat h fp of
        Inl msg \<Rightarrow> readFailed acc fp msg
      | Inr (mtimeMs, sz) \<Rightarrow>
          (let processed = processedFiles fp in
           if (case processed of
                 None \<Rightarrow> False
               | Some p \<Rightarrow> lastModifiedAt p \<ge> mtimeMs \<and> lastSize p = sz)
           then acc\<lparr>filesSkipped := filesSkipped acc + 1\<rparr>
           else
             (case readFile h fp of
                Inl msg \<Rightarrow> readFailed acc fp msg
              | Inr content \<Rightarrow>
                  (let projectPath = extractProjectPath h fp configDirs in
                   if (case processed of None \<Rightarrow> False | Some p \<Rightarrow> lastLineCount p > 0)
                   then
                     (let result = parseJSONLContentFromLine rt content fp projectPath mtimeMs
                                     (case processed of None \<Rightarrow> 0 | Some p \<Rightarrow> lastLineCount p)
                      in acc\<lparr>entries := entries acc @ pr_entries result,
                             errors := errors acc @ pr_errors result,
                             filesProcessed := filesProcessed acc + 1\<rparr>)
                   else
                     (let result = parseJSONLContent rt content fp projectPath mtimeMs
                      in acc\<lparr>entries := entries acc @ pr_entries result,
                             errors := errors acc @ pr_errors result,
                             filesProcessed := filesProcessed acc + 1\<rparr>)))))"

definition scanModifiedFiles ::
  "js_runtime \<Rightarrow> host \<Rightarrow> (string \<rightharpoonup> ProcessedFile) \<Rightarrow> ScanResult" where
  "scanModifiedFiles rt h processedFiles =
     (let configDirs = getClaudeConfigDirs h in
      if configDirs = [] then emptyScanResult
      else
        (let acc = foldl (\<lambda>acc configDir.
                            foldl (scanFileModified rt h configDirs processedFiles) acc
                              (findJSONLFiles h (getProjectsDir h configDir)))
                     (emptyScanResult\<lparr>configDirsUsed := configDirs\<rparr>) configDirs
         in acc\<lparr>entriesFound := length (entries acc)\<rparr>))"

text \<open>
  The files that the two nested loops of a scan visit, in order: those found under the
  projects directory of each config directory.
\<close>

definition visited :: "host \<Rightarrow> string list" where
  "visited h = concat (map (\<lambda>d. findJSONLFiles h (getProjectsDir h d)) (getClaudeConfigDirs h))"

record FileMetadata =
  modifiedAt :: int
  md_size :: int

definition getFileMetadata :: "host \<Rightarrow> string \<Rightarrow> FileMetadata option" where
  "getFileMetadata h fp =
     (case stat h fp of
        Inl msg \<Rightarrow> None
      | Inr (mtimeMs, sz) \<Rightarrow> Some \<lparr>modifiedAt = mtimeMs, md_size = sz\<rparr>)"

section \<open>Repository (packages/database/src/repositories/claude-logs.repository.ts)\<close>

text \<open>
  The two tables, the rows of \<open>claude_log_entries\<close> in insertion order. A statement of
  the batch insert can be refused by the database (a constraint, a full disk, a lock):
  \<open>insert_fails\<close> tells for which rows \<open>insertStmt.run\<close> throws. \<open>write_log\<close> lists
  the writes that were committed, oldest first; the program does not read it.
\<close>

datatype error = SQLiteError

datatype db_write =
    SavedEntries "ParsedLogEntry list"
  | MarkedProcessed ProcessedFile
  | DeletedFile string

record database =
  claude_log_entries :: "ParsedLogEntry list"
  claude_processed_files :: "string \<rightharpoonup> ProcessedFile"
  insert_fails :: "ParsedLogEntry \<Rightarrow> bool"
  write_log :: "db_write list"

text \<open>
  Modelled from the spec: the schema of \<open>claude_log_entries\<close> is not among the sources;
  the spec makes \<open>uuid\<close> the key of the upsert, so \<open>INSERT OR REPLACE\<close> removes the row
  with the same \<open>uuid\<close> and adds the new one. \<open>claude_processed_files\<close> is keyed by
  \<open>file_path\<close> in the same way.
\<close>

definition insert_or_replace :: "ParsedLogEntry \<Rightarrow> ParsedLogEntry list \<Rightarrow> ParsedLogEntry list" where
  "insert_or_replace e rows = filter (\<lambda>r. uuid r \<noteq> uuid e) rows @ [e]"

text \<open>
  The loop inside the transaction function: it stops at the first statement that throws,
  with the rows written so far.
\<close>

fun run_inserts ::
  "(ParsedLogEntry \<Rightarrow> bool) \<Rightarrow> ParsedLogEntry list \<Rightarrow> ParsedLogEntry list
     \<Rightarrow> ParsedLogEntry list \<times> error option" where
  "run_inserts fails [] rows = (rows, None)"
| "run_inserts fails (e # es) rows =
     (if fails e then (rows, Some SQLiteError)
      else run_inserts fails es (insert_or_replace e rows))"

text \<open>
  \<open>db.transaction(f)\<close>: the writes of \<open>f\<close> are committed when it returns and rolled back
  when it throws, and the exception is thrown again.
\<close>

definition transaction ::
  "(ParsedLogEntry list \<Rightarrow> ParsedLogEntry list \<times> error option) \<Rightarrow> database
     \<Rightarrow> database \<times> error option" where
  "transaction body db =
     (case body (claude_log_entries db) of
        (rows, Some err) \<Rightarrow> (db, Some err)
      | (rows, None) \<Rightarrow> (db\<lparr>claude_log_entries := rows\<rparr>, None))"

definition saveEntries :: "ParsedLogEntry list \<Rightarrow> database \<Rightarrow> database \<times> error option" where
  "saveEntries es db =
     (if es = [] then (db, None)
      else
        (case transaction (run_inserts (insert_fails db) es) db of
           (db', Some err) \<Rightarrow> (db', Some err)
         | (db', None) \<Rightarrow> (db'\<lparr>write_log := write_log db' @ [SavedEntries es]\<rparr>, None)))"

definition getProcessedFiles :: "database \<Rightarrow> (string \<rightharpoonup> ProcessedFile)" where
  "getProcessedFiles db = claude_processed_files db"

definition markFileProcessed :: "ProcessedFile \<Rightarrow> database \<Rightarrow> database" where
  "markFileProcessed file db =
     db\<lparr>claude_processed_files := (claude_processed_files db)(pf_filePath file \<mapsto> file),
        write_log := write_log db @ [MarkedProcessed file]\<rparr>"

definition deleteEntriesFromFile :: "string \<Rightarrow> database \<Rightarrow> database" where
  "deleteEntriesFromFile fp db =
     db\<lparr>claude_log_entries := filter (\<lambda>r. filePath r \<noteq> fp) (claude_log_entries db),
        claude_processed_files := (claude_processed_files db)(fp := None),
        write_log := write_log db @ [DeletedFile fp]\<rparr>"

subsection \<open>Billing blocks\<close>

text \<open>
  The \<open>timestamp\<close> column holds the integer of \<open>getTime()\<close>, and \<open>/\<close> between two
  integers is SQLite's integer division, which truncates towards zero. The query result
  is kept in epoch milliseconds; the source then formats \<open>blockStart\<close> and \<open>blockEnd\<close>
  with \<open>toISOString\<close>.
\<close>

definition blockSize :: int where
  "blockSize = 5 * 60 * 60 * 1000"

definition sqlite_div :: "int \<Rightarrow> int \<Rightarrow> int" where
  "sqlite_div a b = (if (a < 0) = (b < 0) then \<bar>a\<bar> div \<bar>b\<bar> else - (\<bar>a\<bar> div \<bar>b\<bar>))"

definition blockStartOf :: "int \<Rightarrow> int" where
  "blockStartOf t = sqlite_div t blockSize * blockSize"

definition blockEndOf :: "int \<Rightarrow> int" where
  "blockEndOf t = (sqlite_div t blockSize + 1) * blockSize"

record BillingBlockUsage =
  blockStart :: int
  blockEnd :: int
  bb_inputTokens :: int
  bb_outputTokens :: int
  bb_cacheCreationInputTokens :: int
  bb_cacheReadInputTokens :: int
  bb_totalTokens :: int
  bb_costUsd :: rat
  bb_requestCount :: nat

text \<open>The \<open>WHERE\<close> clause: \<open>if (startTime)\<close> leaves a bound of 0 out, like an absent one.\<close>

definition billingWhere :: "int option \<Rightarrow> int option \<Rightarrow> ParsedLogEntry \<Rightarrow> bool" where
  "billingWhere startTime endTime r \<longleftrightarrow>
     (case startTime of None \<Rightarrow> True | Some s \<Rightarrow> s = 0 \<or> timestamp r \<ge> s) \<and>
     (case endTime of None \<Rightarrow> True | Some e \<Rightarrow> e = 0 \<or> timestamp r \<le> e)"

text \<open>One row of the result: the aggregates over the rows of one \<open>blockStart\<close> group.\<close>

definition billingGroup :: "int \<Rightarrow> ParsedLogEntry list \<Rightarrow> BillingBlockUsage" where
  "billingGroup k g =
     \<lparr>blockStart = k,
      blockEnd = (case g of [] \<Rightarrow> k | r # _ \<Rightarrow> blockEndOf (timestamp r)),
      bb_inputTokens = sum_list (map inputTokens g),
      bb_outputTokens = sum_list (map outputTokens g),
      bb_cacheCreationInputTokens = sum_list (map cacheCreationInputTokens g),
      bb_cacheReadInputTokens = sum_list (map cacheReadInputTokens g),
      bb_totalTokens = sum_list (map totalTokens g),
      bb_costUsd = sum_list (map costUsd g),
      bb_requestCount = length g\<rparr>"

definition getBillingBlockUsage ::
  "int option \<Rightarrow> int option \<Rightarrow> database \<Rightarrow> BillingBlockUsage list" where
  "getBillingBlockUsage startTime endTime db =
     (let rows = filter (billingWhere startTime endTime) (claude_log_entries db);
          keys = rev (sort (remdups (map (\<lambda>r. blockStartOf (timestamp r)) rows)))
      in map (\<lambda>k. billingGroup k (filter (\<lambda>r. blockStartOf (timestamp r) = k) rows)) keys)"

section \<open>Ingestion service (service.ts)\<close>

text \<open>
  The two fields of \<open>ClaudeLogsService\<close> that the scans use: the in-memory map and the
  repository. An operation returns the service as it has left it, and the exception it
  has thrown, if any.
\<close>

record service =
  processedFiles :: "string \<rightharpoonup> ProcessedFile"
  repository :: database

text \<open>
  \<open>fileEntries\<close> is a JavaScript \<open>Map\<close>, iterated in insertion order: an association
  list, \<open>get\<close> being \<^const>\<open>map_of\<close> and \<open>set\<close> being \<^const>\<open>AList.update\<close>.
\<close>

definition countEntry :: "(string \<times> nat) list \<Rightarrow> ParsedLogEntry \<Rightarrow> (string \<times> nat) list" where
  "countEntry fileEntries entry =
     (let count = (case map_of fileEntries (filePath entry) of None \<Rightarrow> 0 | Some c \<Rightarrow> c)
      in AList.update (filePath entry) (count + 1) fileEntries)"

text \<open>
  The body of the second loop of \<open>updateProcessedFilesFromScan\<close>. \<open>h'\<close> is the host
  when the metadata is read, after the scan; \<open>now\<close> is \<open>Date.now()\<close>.
\<close>

definition updateOneFile :: "host \<Rightarrow> int \<Rightarrow> service \<Rightarrow> string \<times> nat \<Rightarrow> service" where
  "updateOneFile h' now svc fe =
     (case fe of (fp, entryCount) \<Rightarrow>
        (case getFileMetadata h' fp of
           None \<Rightarrow> svc
         | Some metadata \<Rightarrow>
             (let existing = processedFiles svc fp;
                  processedFile =
                    \<lparr>pf_filePath = fp,
                     lastModifiedAt = modifiedAt metadata,
                     lastSize = md_size metadata,
                     lastLineCount =
                       (case existing of None \<Rightarrow> 0 | Some x \<Rightarrow> lastLineCount x) + entryCount,
                     processedAt = now\<rparr>
              in svc\<lparr>processedFiles := (processedFiles svc)(fp \<mapsto> processedFile),
                     repository := markFileProcessed processedFile (repository svc)\<rparr>)))"

definition updateProcessedFilesFromScan ::
  "host \<Rightarrow> int \<Rightarrow> ScanResult \<Rightarrow> service \<Rightarrow> service" where
  "updateProcessedFilesFromScan h' now result svc =
     (let fileEntries = foldl countEntry [] (entries result)
      in foldl (updateOneFile h' now) svc fileEntries)"

definition scanAndImport ::
  "js_runtime \<Rightarrow> host \<Rightarrow> host \<Rightarrow> int \<Rightarrow> service \<Rightarrow> service \<times> (error + ScanResult)" where
  "scanAndImport rt h h' now svc =
     (let result = scanAllJSONLFiles rt h in
      if length (entries result) > 0
      then
        (case saveEntries (entries result) (repository svc) of
           (db, Some err) \<Rightarrow> (svc\<lparr>repository := db\<rparr>, Inl err)
         | (db, None) \<Rightarrow>
             (updateProcessedFilesFromScan h' now result (svc\<lparr>repository := db\<rparr>), Inr result))
      else (updateProcessedFilesFromScan h' now result svc, Inr result))"

definition incrementalScan ::
  "js_runtime \<Rightarrow> host \<Rightarrow> host \<Rightarrow> int \<Rightarrow> service \<Rightarrow> service \<times> (error + ScanResult)" where
  "incrementalScan rt h h' now svc =
     (let result = scanModifiedFiles rt h (processedFiles svc) in
      if length (entries result) > 0
      then
        (case saveEntries (entries result) (repository svc) of
           (db, Some err) \<Rightarrow> (svc\<lparr>repository := db\<rparr>, Inl err)
         | (db, None) \<Rightarrow>
             (updateProcessedFilesFromScan h' now result (svc\<lparr>repository := db\<rparr>), Inr result))
      else (updateProcessedFilesFromScan h' now result svc, Inr result))"

text \<open>
  The watch-triggered scan. It returns nothing in the source; the model also returns the
  scan result, \<open>None\<close> when the file was found deleted.
\<close>

definition processModifiedFile ::
  "js_runtime \<Rightarrow> host \<Rightarrow> host \<Rightarrow> int \<Rightarrow> string \<Rightarrow> service
     \<Rightarrow> service \<times> (error + ScanResult option)" where
  "processModifiedFile rt h h' now fp svc =
     (case getFileMetadata h fp of
        None \<Rightarrow>
          (svc\<lparr>repository := deleteEntriesFromFile fp (repository svc),
               processedFiles := (processedFiles svc)(fp := None)\<rparr>, Inr None)
      | Some metadata \<Rightarrow>
          (let tempProcessed = (processedFiles svc)(fp := None);
               result = scanModifiedFiles rt h tempProcessed
           in if length (entries result) > 0
              then
                (case saveEntries (entries result) (repository svc) of
                   (db, Some err) \<Rightarrow> (svc\<lparr>repository := db\<rparr>, Inl err)
                 | (db, None) \<Rightarrow>
                     (updateProcessedFilesFromScan h' now result (svc\<lparr>repository := db\<rparr>),
                      Inr (Some result)))
              else (updateProcessedFilesFromScan h' now result svc, Inr (Some result))))"

subsection \<open>Scans in flight\<close>

text \<open>
  \<open>incrementalScan\<close> is an \<open>async\<close> function: at an \<open>await\<close> it gives the event loop
  back, and other callbacks run before it is resumed. A scan that has been started is in
  one of three stages. It first waits for \<open>scanModifiedFiles\<close>; when it is resumed with
  the result, the batch write runs in the same turn (the body of \<open>saveEntries\<close> has no
  \<open>await\<close>), and the scan waits again, in \<open>updateProcessedFilesFromScan\<close>, for the file
  metadata; when it is resumed there, it reads the map, writes the watermarks and
  returns. The model takes the scan of the files as one turn and the update of the
  watermarks as one turn; the source has an \<open>await\<close> for each file inside both, so it
  allows every interleaving of the model and more.
\<close>

datatype scan_stage =
    Scanning
  | Updating ScanResult
  | Finished "error + ScanResult"

definition incrementalScan_resume ::
  "js_runtime \<Rightarrow> host \<Rightarrow> host \<Rightarrow> int \<Rightarrow> scan_stage \<Rightarrow> service \<Rightarrow> scan_stage \<times> service" where
  "incrementalScan_resume rt h h' now stage svc =
     (case stage of
        Scanning \<Rightarrow>
          (let result = scanModifiedFiles rt h (processedFiles svc) in
           if length (entries result) > 0
           then
             (case saveEntries (entries result) (repository svc) of
                (db, Some err) \<Rightarrow> (Finished (Inl err), svc\<lparr>repository := db\<rparr>)
              | (db, None) \<Rightarrow> (Updating result, svc\<lparr>repository := db\<rparr>))
           else (Updating result, svc))
      | Updating result \<Rightarrow>
          (Finished (Inr result), updateProcessedFilesFromScan h' now result svc)
      | Finished r \<Rightarrow> (Finished r, svc))"

text \<open>
  The callback that \<open>startPeriodicScan\<close> gives to \<open>setInterval\<close> calls
  \<open>incrementalScan\<close> each time the timer fires; it looks at no flag and no earlier
  call. The pipeline is the service together with the scans started so far, and an event
  is either the timer firing or the event loop resuming the scan of a given index.
\<close>

datatype event =
    TimerFired
  | Resumed nat

record pipeline =
  serviceState :: service
  scansStarted :: "scan_stage list"

definition dispatch ::
  "js_runtime \<Rightarrow> host \<Rightarrow> host \<Rightarrow> int \<Rightarrow> pipeline \<Rightarrow> event \<Rightarrow> pipeline" where
  "dispatch rt h h' now p ev =
     (case ev of
        TimerFired \<Rightarrow> p\<lparr>scansStarted := scansStarted p @ [Scanning]\<rparr>
      | Resumed i \<Rightarrow>
          if i < length (scansStarted p)
          then
            (case incrementalScan_resume rt h h' now (scansStarted p ! i) (serviceState p) of
               (stage, svc) \<Rightarrow>
                 \<lparr>serviceState = svc, scansStarted = (scansStarted p)[i := stage]\<rparr>)
          else p)"

definition run_events ::
  "js_runtime \<Rightarrow> host \<Rightarrow> host \<Rightarrow> int \<Rightarrow> event list \<Rightarrow> pipeline \<Rightarrow> pipeline" where
  "run_events rt h h' now evs p = foldl (dispatch rt h h' now) p evs"

text \<open>The scans that have been started and have not returned.\<close>

definition in_flight :: "pipeline \<Rightarrow> nat" where
  "in_flight p =
     length (filter (\<lambda>s. case s of Finished r \<Rightarrow> False | _ \<Rightarrow> True) (scansStarted p))"

section \<open>A concrete runtime and host, for the examples\<close>

text \<open>
  Two log lines as the external tool writes them, what \<open>JSON.parse\<close> and \<open>Date\<close> make
  of them, and a home directory with one log file.
\<close>

definition lineA :: string where
  \<open>lineA = ''{"uuid":"a","sessionId":"s1","timestamp":"2024-01-01T00:00:00.000Z","message":{"usage":{"input_tokens":10,"output_tokens":5}},"costUSD":0.01}''\<close>

definition lineB :: string where
  \<open>lineB = ''{"uuid":"b","sessionId":"s1","timestamp":"2024-01-01T05:00:00.000Z","costUSD":0.02}''\<close>

text \<open>A line that is not JSON.\<close>

definition lineBad :: string where
  "lineBad = ''not json''"

text \<open>A line whose counters add up to more than a double holds exactly.\<close>

definition lineC :: string where
  \<open>lineC = ''{"uuid":"c","sessionId":"s1","timestamp":"2024-01-01T00:00:00.000Z","message":{"usage":{"input_tokens":9007199254740992,"output_tokens":1}}}''\<close>

definition rawC :: RawLogEntry where
  "rawC =
     \<lparr>raw_uuid = Some ''c'', raw_sessionId = Some ''s1'',
      raw_timestamp = Some ''2024-01-01T00:00:00.000Z'',
      raw_message = Some \<lparr>msg_role = None, msg_model = None,
        msg_usage = Some \<lparr>input_tokens = Some 9007199254740992, output_tokens = Some 1,
          cache_creation_input_tokens = None, cache_read_input_tokens = None\<rparr>\<rparr>,
      raw_costUSD = None, raw_gitBranch = None, raw_cwd = None\<rparr>"

definition rawA :: RawLogEntry where
  "rawA =
     \<lparr>raw_uuid = Some ''a'', raw_sessionId = Some ''s1'',
      raw_timestamp = Some ''2024-01-01T00:00:00.000Z'',
      raw_message = Some \<lparr>msg_role = None, msg_model = None,
        msg_usage = Some \<lparr>input_tokens = Some 10, output_tokens = Some 5,
          cache_creation_input_tokens = None, cache_read_input_tokens = None\<rparr>\<rparr>,
      raw_costUSD = Some (1 / 100), raw_gitBranch = None, raw_cwd = None\<rparr>"

definition rawB :: RawLogEntry where
  "rawB =
     \<lparr>raw_uuid = Some ''b'', raw_sessionId = Some ''s1'',
      raw_timestamp = Some ''2024-01-01T05:00:00.000Z'',
      raw_message = None,
      raw_costUSD = Some (2 / 100), raw_gitBranch = None, raw_cwd = None\<rparr>"

text \<open>
  The addition of doubles on whole numbers: the exact sum, rounded to 53 significant
  bits, a tie going to the even neighbour. \<open>excess_bits a\<close> is the number of low bits
  that do not fit. (A sum beyond the largest double, which the runtime turns into
  \<open>Infinity\<close>, is not among the examples.)
\<close>

fun excess_bits :: "nat \<Rightarrow> nat" where
  "excess_bits a = (if a < 2 ^ 53 then 0 else Suc (excess_bits (a div 2)))"

declare excess_bits.simps [simp del]

definition double_round :: "int \<Rightarrow> int" where
  "double_round n =
     (let a = nat \<bar>n\<bar>;
          k = excess_bits a;
          q = a div 2 ^ k;
          r = a mod 2 ^ k;
          m = (if 2 * r > 2 ^ k \<or> (2 * r = 2 ^ k \<and> odd q) then q + 1 else q)
      in sgn n * int (m * 2 ^ k))"

definition double_plus :: "int \<Rightarrow> int \<Rightarrow> int" where
  "double_plus a b = double_round (a + b)"

definition demo_rt :: js_runtime where
  "demo_rt =
     \<lparr>JSON_parse = (\<lambda>s. if s = lineA then Inr rawA
                         else if s = lineB then Inr rawB
                         else if s = lineC then Inr rawC
                         else Inl ''Unexpected token''),
      Date_getTime = (\<lambda>s. if s = ''2024-01-01T00:00:00.000Z'' then Some 1704067200000
                           else if s = ''2024-01-01T05:00:00.000Z'' then Some 1704085200000
                           else None),
      js_plus = double_plus\<rparr>"

definition demo_file :: string where
  "demo_file = ''/home/u/.claude/projects/app1/s1.jsonl''"

text \<open>The host whose only log file holds \<open>content\<close>, of \<open>sz\<close> bytes, modified at \<open>mt\<close>.\<close>

definition demo_host :: "string \<Rightarrow> int \<Rightarrow> int \<Rightarrow> host" where
  "demo_host content mt sz =
     \<lparr>CLAUDE_CONFIG_DIR = None,
      homedir = ''/home/u'',
      path_join = str_join ''/'',
      existsSync = (\<lambda>p. p = ''/home/u/.claude''),
      findJSONLFiles = (\<lambda>d. if d = ''/home/u/.claude/projects'' then [demo_file] else []),
      stat = (\<lambda>p. if p = demo_file then Inr (mt, sz) else Inl ''ENOENT''),
      readFile = (\<lambda>p. if p = demo_file then Inr content else Inl ''ENOENT'')\<rparr>"

definition entryA :: ParsedLogEntry where
  "entryA =
     \<lparr>uuid = ''a'', sessionId = ''s1'', projectPath = ''app1'',
      timestamp = 1704067200000, role = ''unknown'', model = None,
      inputTokens = 10, outputTokens = 5, cacheCreationInputTokens = 0,
      cacheReadInputTokens = 0, totalTokens = 15, costUsd = 1 / 100,
      gitBranch = None, cwd = None, filePath = demo_file, fileModifiedAt = 1000\<rparr>"

definition entryB :: ParsedLogEntry where
  "entryB =
     \<lparr>uuid = ''b'', sessionId = ''s1'', projectPath = ''app1'',
      timestamp = 1704085200000, role = ''unknown'', model = None,
      inputTokens = 0, outputTokens = 0, cacheCreationInputTokens = 0,
      cacheReadInputTokens = 0, totalTokens = 0, costUsd = 2 / 100,
      gitBranch = None, cwd = None, filePath = demo_file, fileModifiedAt = 1000\<rparr>"

definition empty_db :: database where
  "empty_db =
     \<lparr>claude_log_entries = [], claude_processed_files = Map.empty,
      insert_fails = (\<lambda>e. False), write_log = []\<rparr>"

text \<open>A host whose override names the same existing directory twice.\<close>

definition dup_host :: host where
  "dup_host =
     \<lparr>CLAUDE_CONFIG_DIR = Some ''/a,/a'',
      homedir = ''/home/u'',
      path_join = str_join ''/'',
      existsSync = (\<lambda>p. p = ''/a''),
      findJSONLFiles = (\<lambda>d. []),
      stat = (\<lambda>p. Inl ''ENOENT''),
      readFile = (\<lambda>p. Inl ''ENOENT'')\<rparr>"

text \<open>
  A service that has seen nothing, the watermark of the example file after its first
  line, and a service that holds this watermark and the entry of that line.
\<close>

definition svc0 :: service where
  "svc0 = \<lparr>processedFiles = Map.empty, repository = empty_db\<rparr>"

definition wmA :: ProcessedFile where
  "wmA =
     \<lparr>pf_filePath = demo_file, lastModifiedAt = 1000, lastSize = 100,
      lastLineCount = 1, processedAt = 5000\<rparr>"

definition svcA :: service where
  "svcA =
     \<lparr>processedFiles = [demo_file \<mapsto> wmA],
      repository = empty_db\<lparr>claude_log_entries := [entryA],
                            claude_processed_files := [demo_file \<mapsto> wmA]\<rparr>\<rparr>"

definition resultA :: ScanResult where
  "resultA =
     \<lparr>entries = [entryA], filesProcessed = 1, filesSkipped = 0, entriesFound = 1,
      errors = [], configDirsUsed = [''/home/u/.claude'']\<rparr>"

text \<open>A service whose database refuses every insertion.\<close>

definition svcF :: service where
  "svcF =
     \<lparr>processedFiles = Map.empty,
      repository = empty_db\<lparr>insert_fails := (\<lambda>e. True)\<rparr>\<rparr>"

section \<open>Strings\<close>

lemma str_split_line: "sep \<notin> set l \<Longrightarrow> str_split sep (l @ sep # rest) = l # str_split sep rest"
  by (induction l) (auto split: list.splits)

lemma str_split_last: "sep \<notin> set l \<Longrightarrow> str_split sep l = [l]"
  by (induction l) (auto split: list.splits)

lemma str_split_length: "length (str_split sep s) = Suc (count_list s sep)"
  by (induction s) (auto split: list.splits)

section \<open>The parser\<close>

text \<open>What a successful parse tells about the line and the entry.\<close>

lemma parseLine_Some:
  assumes "parseLine rt line fp pp mtime lineNo = (Some e, err)"
  shows "\<exists>raw ts. JSON_parse rt (trim line) = Inr raw \<and> trim line \<noteq> [] \<and>
           \<not> falsy (raw_uuid raw) \<and> \<not> falsy (raw_sessionId raw) \<and> \<not> falsy (raw_timestamp raw) \<and>
           Date_getTime rt (str_of (raw_timestamp raw)) = Some ts \<and> err = None \<and>
           inputTokens e = or_zero (case (case raw_message raw of None \<Rightarrow> None | Some m \<Rightarrow> msg_usage m) of None \<Rightarrow> None | Some u \<Rightarrow> input_tokens u) \<and>
           outputTokens e = or_zero (case (case raw_message raw of None \<Rightarrow> None | Some m \<Rightarrow> msg_usage m) of None \<Rightarrow> None | Some u \<Rightarrow> output_tokens u) \<and>
           cacheCreationInputTokens e = or_zero (case (case raw_message raw of None \<Rightarrow> None | Some m \<Rightarrow> msg_usage m) of None \<Rightarrow> None | Some u \<Rightarrow> cache_creation_input_tokens u) \<and>
           cacheReadInputTokens e = or_zero (case (case raw_message raw of None \<Rightarrow> None | Some m \<Rightarrow> msg_usage m) of None \<Rightarrow> None | Some u \<Rightarrow> cache_read_input_tokens u) \<and>
           totalTokens e =
             js_plus rt (js_plus rt (js_plus rt (inputTokens e) (outputTokens e))
               (cacheCreationInputTokens e)) (cacheReadInputTokens e) \<and>
           filePath e = fp \<and> projectPath e = pp \<and> fileModifiedAt e = mtime"
proof (cases "trim line = []")
  case True
  with assms show ?thesis by (simp add: parseLine_def)
next
  case False
  show ?thesis
  proof (cases "JSON_parse rt (trim line)")
    case (Inl msg)
    with assms False show ?thesis by (simp add: parseLine_def)
  next
    case (Inr raw)
    show ?thesis
    proof (cases "falsy (raw_uuid raw) \<or> falsy (raw_sessionId raw) \<or> falsy (raw_timestamp raw)")
      case True
      with assms False Inr show ?thesis by (simp add: parseLine_def)
    next
      case nf: False
      show ?thesis
      proof (cases "Date_getTime rt (str_of (raw_timestamp raw))")
        case None
        with assms False Inr nf show ?thesis by (simp add: parseLine_def)
      next
        case (Some ts)
        with assms False Inr nf show ?thesis
          by (simp add: parseLine_def Let_def) (erule conjE, erule subst, simp)
      qed
    qed
  qed
qed


lemma parseLine_syntax_error:
  "trim line \<noteq> [] \<Longrightarrow> JSON_parse rt (trim line) = Inl msg \<Longrightarrow>
     parseLine rt line fp pp mtime lineNo =
       (None, Some \<lparr>err_filePath = fp, err_line = lineNo, err_error = ''JSON parse error: '' @ msg\<rparr>)"
  by (simp add: parseLine_def)

lemma parseLine_missing:
  "trim line \<noteq> [] \<Longrightarrow> JSON_parse rt (trim line) = Inr raw \<Longrightarrow>
   falsy (raw_uuid raw) \<or> falsy (raw_sessionId raw) \<or> falsy (raw_timestamp raw) \<Longrightarrow>
     parseLine rt line fp pp mtime lineNo =
       (None, Some \<lparr>err_filePath = fp, err_line = lineNo,
          err_error = ''Missing required fields (uuid, sessionId, or timestamp)''\<rparr>)"
  by (simp add: parseLine_def)

lemma parseLine_bad_timestamp:
  "trim line \<noteq> [] \<Longrightarrow> JSON_parse rt (trim line) = Inr raw \<Longrightarrow>
   \<not> (falsy (raw_uuid raw) \<or> falsy (raw_sessionId raw) \<or> falsy (raw_timestamp raw)) \<Longrightarrow>
   Date_getTime rt (str_of (raw_timestamp raw)) = None \<Longrightarrow>
     parseLine rt line fp pp mtime lineNo =
       (None, Some \<lparr>err_filePath = fp, err_line = lineNo,
          err_error = ''Invalid timestamp: '' @ str_of (raw_timestamp raw)\<rparr>)"
  by (simp add: parseLine_def)

lemma parseLine_blank: "trim line = [] \<Longrightarrow> parseLine rt line fp pp mtime lineNo = (None, None)"
  by (simp add: parseLine_def)

subsection \<open>The example lines\<close>

lemma excess_bits_small: "a < 2 ^ 53 \<Longrightarrow> excess_bits a = 0"
  by (simp add: excess_bits.simps)

lemma double_round_exact: "\<bar>n\<bar> < 2 ^ 53 \<Longrightarrow> double_round n = n"
proof -
  assume "\<bar>n\<bar> < 2 ^ 53"
  then have "nat \<bar>n\<bar> < 2 ^ 53" by (simp add: nat_less_iff)
  then have "excess_bits (nat \<bar>n\<bar>) = 0" by (rule excess_bits_small)
  then have "double_round n = sgn n * \<bar>n\<bar>" by (simp add: double_round_def Let_def)
  then show ?thesis by (simp add: mult_sgn_abs)
qed

lemma double_plus_exact: "\<bar>a + b\<bar> < 2 ^ 53 \<Longrightarrow> double_plus a b = a + b"
  by (simp add: double_plus_def double_round_exact)


lemma trim_lineA: "trim lineA = lineA"
  by (simp add: trim_def lineA_def is_ws_def)

lemma trim_lineB: "trim lineB = lineB"
  by (simp add: trim_def lineB_def is_ws_def)

lemma demo_lines_neq: "lineA \<noteq> lineB" "lineB \<noteq> lineA" "lineA \<noteq> []" "lineB \<noteq> []"
  by (simp_all add: lineA_def lineB_def)

lemma LF_notin_lines: "LF \<notin> set lineA" "LF \<notin> set lineB"
  by (simp_all add: lineA_def lineB_def LF_def)

lemma parseLine_A: "parseLine demo_rt lineA demo_file ''app1'' 1000 lineNo = (Some entryA, None)"
  by (simp add: parseLine_def trim_lineA demo_lines_neq demo_rt_def rawA_def falsy_def str_of_def
      or_zero_def or_null_def entryA_def double_plus_exact)

lemma parseLine_B: "parseLine demo_rt lineB demo_file ''app1'' 1000 lineNo = (Some entryB, None)"
  by (simp add: parseLine_def trim_lineB demo_lines_neq demo_rt_def rawB_def falsy_def str_of_def
      or_zero_def or_null_def entryB_def double_plus_exact)

lemma trim_notjson: "trim ''not json'' = ''not json''"
  by (simp add: trim_def is_ws_def)

lemma parse_notjson: "JSON_parse demo_rt ''not json'' = Inl ''Unexpected token''"
  by (simp add: demo_rt_def lineA_def lineB_def lineC_def)

subsection \<open>Malformed lines\<close>

text \<open>
  Claim C5. \<open>parseLine\<close> is total: the exception of \<open>JSON.parse\<close> is a value that
  the \<open>catch\<close> turns into an error. A line that is not blank and that is not valid JSON,
  or has no non-empty \<open>uuid\<close>, \<open>sessionId\<close> or \<open>timestamp\<close>, or whose timestamp
  does not parse, gives no entry and one \<open>ScanError\<close> with the file path, the line
  number passed in and a non-empty cause. A bad line leaves its neighbours alone: the
  content made of a valid line, a line that is not JSON and a valid line gives, through
  \<open>parseJSONLContent\<close>, exactly the two entries and exactly one error, on line 2.
\<close>


theorem parseLine_bad_line_isolated:
  "(trim line \<noteq> [] \<and>
      ((\<exists>msg. JSON_parse rt (trim line) = Inl msg) \<or>
       (\<exists>raw. JSON_parse rt (trim line) = Inr raw \<and>
          (falsy (raw_uuid raw) \<or> falsy (raw_sessionId raw) \<or> falsy (raw_timestamp raw) \<or>
           Date_getTime rt (str_of (raw_timestamp raw)) = None)))
    \<longrightarrow> (\<exists>cause. cause \<noteq> [] \<and>
           parseLine rt line fp pp mtime lineNo =
             (None, Some \<lparr>err_filePath = fp, err_line = lineNo, err_error = cause\<rparr>)))
   \<and>
   (LF \<notin> set l1 \<and> LF \<notin> set l2 \<and> LF \<notin> set l3 \<and>
      parseLine rt l1 fp pp mtime (Some 1) = (Some e1, None) \<and>
      trim l2 \<noteq> [] \<and> JSON_parse rt (trim l2) = Inl msg2 \<and>
      parseLine rt l3 fp pp mtime (Some 3) = (Some e3, None)
    \<longrightarrow> parseJSONLContent rt (l1 @ LF # l2 @ LF # l3) fp pp mtime =
          \<lparr>pr_entries = [e1, e3],
           pr_errors = [\<lparr>err_filePath = fp, err_line = Some 2,
                          err_error = ''JSON parse error: '' @ msg2\<rparr>]\<rparr>)"
proof (intro conjI impI)
  assume h: "trim line \<noteq> [] \<and>
      ((\<exists>msg. JSON_parse rt (trim line) = Inl msg) \<or>
       (\<exists>raw. JSON_parse rt (trim line) = Inr raw \<and>
          (falsy (raw_uuid raw) \<or> falsy (raw_sessionId raw) \<or> falsy (raw_timestamp raw) \<or>
           Date_getTime rt (str_of (raw_timestamp raw)) = None)))"
  then have ne: "trim line \<noteq> []" by simp
  show "\<exists>cause. cause \<noteq> [] \<and>
           parseLine rt line fp pp mtime lineNo =
             (None, Some \<lparr>err_filePath = fp, err_line = lineNo, err_error = cause\<rparr>)"
  proof (cases "JSON_parse rt (trim line)")
    case (Inl msg)
    with ne show ?thesis by (simp add: parseLine_syntax_error)
  next
    case (Inr raw)
    show ?thesis
    proof (cases "falsy (raw_uuid raw) \<or> falsy (raw_sessionId raw) \<or> falsy (raw_timestamp raw)")
      case True
      with ne Inr show ?thesis by (simp add: parseLine_missing)
    next
      case False
      with h Inr have "Date_getTime rt (str_of (raw_timestamp raw)) = None" by auto
      with ne Inr False show ?thesis by (simp add: parseLine_bad_timestamp)
    qed
  qed
next
  assume h: "LF \<notin> set l1 \<and> LF \<notin> set l2 \<and> LF \<notin> set l3 \<and>
      parseLine rt l1 fp pp mtime (Some 1) = (Some e1, None) \<and>
      trim l2 \<noteq> [] \<and> JSON_parse rt (trim l2) = Inl msg2 \<and>
      parseLine rt l3 fp pp mtime (Some 3) = (Some e3, None)"
  then have split: "str_split LF (l1 @ LF # l2 @ LF # l3) = [l1, l2, l3]"
    by (simp add: str_split_line str_split_last)
  from h have p2: "parseLine rt l2 fp pp mtime (Some (Suc (Suc 0))) =
      (None, Some \<lparr>err_filePath = fp, err_line = Some 2, err_error = ''JSON parse error: '' @ msg2\<rparr>)"
    by (simp add: parseLine_syntax_error numeral_2_eq_2)
  from h have p1: "parseLine rt l1 fp pp mtime (Some (Suc 0)) = (Some e1, None)"
    and p3: "parseLine rt l3 fp pp mtime (Some (Suc (Suc (Suc 0)))) = (Some e3, None)"
    by (simp_all add: numeral_3_eq_3)
  have "parse_lines rt fp pp mtime 0 [l1, l2, l3] =
          ([e1, e3], [\<lparr>err_filePath = fp, err_line = Some 2,
                          err_error = ''JSON parse error: '' @ msg2\<rparr>])"
    by (simp add: p1 p2 p3)
  then show "parseJSONLContent rt (l1 @ LF # l2 @ LF # l3) fp pp mtime =
          \<lparr>pr_entries = [e1, e3],
           pr_errors = [\<lparr>err_filePath = fp, err_line = Some 2,
                          err_error = ''JSON parse error: '' @ msg2\<rparr>]\<rparr>"
    unfolding parseJSONLContent_def Let_def split by simp
qed

theorem parseLine_bad_line_isolated_witness:
  "trim ''not json'' \<noteq> [] \<and> JSON_parse demo_rt (trim ''not json'') = Inl ''Unexpected token'' \<and>
   parseLine demo_rt ''not json'' demo_file ''app1'' 1000 (Some 2) =
     (None, Some \<lparr>err_filePath = demo_file, err_line = Some 2,
                   err_error = ''JSON parse error: Unexpected token''\<rparr>) \<and>
   LF \<notin> set lineA \<and> LF \<notin> set ''not json'' \<and> LF \<notin> set lineB \<and>
   parseLine demo_rt lineA demo_file ''app1'' 1000 (Some 1) = (Some entryA, None) \<and>
   parseLine demo_rt lineB demo_file ''app1'' 1000 (Some 3) = (Some entryB, None) \<and>
   parseJSONLContent demo_rt (lineA @ LF # ''not json'' @ LF # lineB) demo_file ''app1'' 1000 =
     \<lparr>pr_entries = [entryA, entryB],
      pr_errors = [\<lparr>err_filePath = demo_file, err_line = Some 2,
                     err_error = ''JSON parse error: Unexpected token''\<rparr>]\<rparr>"
proof -
  have h1: "trim ''not json'' \<noteq> []" by (simp add: trim_notjson)
  have h2: "JSON_parse demo_rt (trim ''not json'') = Inl ''Unexpected token''"
    by (simp add: trim_notjson parse_notjson)
  have h3: "LF \<notin> set ''not json''" by (simp add: LF_def)
  note T = parseLine_bad_line_isolated [of "''not json''" demo_rt demo_file "''app1''" 1000 "Some 2"
      lineA "''not json''" lineB entryA "''Unexpected token''" entryB]
  from T h1 h2 h3 LF_notin_lines parseLine_A parseLine_B
  have "parseJSONLContent demo_rt (lineA @ LF # ''not json'' @ LF # lineB) demo_file ''app1'' 1000 =
     \<lparr>pr_entries = [entryA, entryB],
      pr_errors = [\<lparr>err_filePath = demo_file, err_line = Some 2,
                     err_error = ''JSON parse error: Unexpected token''\<rparr>]\<rparr>"
    by simp
  moreover have "parseLine demo_rt ''not json'' demo_file ''app1'' 1000 (Some 2) =
     (None, Some \<lparr>err_filePath = demo_file, err_line = Some 2,
                   err_error = ''JSON parse error: Unexpected token''\<rparr>)"
    using parseLine_syntax_error [OF h1 h2] by simp
  ultimately show ?thesis
    using h1 h2 h3 LF_notin_lines parseLine_A parseLine_B by blast
qed


subsection \<open>The line count of the batch variants\<close>

text \<open>
  Claim C6, as stated, fails for the full-blob variant: \<open>parseJSONLContent\<close> returns
  entries and errors only. The empty content (one line) and the content made of one
  newline (two lines) give the same result, so no line count can be read from it.
\<close>

theorem parseJSONLContent_hides_line_count:
  "parseJSONLContent demo_rt [] demo_file ''app1'' 1000 =
     parseJSONLContent demo_rt [LF] demo_file ''app1'' 1000 \<and>
   length (str_split LF []) \<noteq> length (str_split LF [LF])"
  by (simp add: parseJSONLContent_def parseLine_def trim_def is_ws_def LF_def)


text \<open>
  Claim C6, amended. \<open>parseJSONLContentFromLine\<close> returns, besides the entries and the
  errors, the number of pieces that the newlines cut the whole content into, which is
  the number of newlines plus one; this holds for every start line and every content,
  also when no line gives an entry. \<open>parseJSONLContent\<close> returns no line count.
\<close>

theorem parseJSONLContentFromLine_lineCount:
  "lineCount (parseJSONLContentFromLine rt content fp pp mtime startLine) =
     length (str_split LF content) \<and>
   lineCount (parseJSONLContentFromLine rt content fp pp mtime startLine) =
     Suc (count_list content LF)"
  by (simp add: parseJSONLContentFromLine_def Let_def str_split_length split: prod.splits)


section \<open>The path resolver\<close>

text \<open>Every directory of the result exists on disk.\<close>

lemma getClaudeConfigDirs_exist:
  "d \<in> set (getClaudeConfigDirs h) \<Longrightarrow> existsSync h d"
  by (auto simp: getClaudeConfigDirs_def Let_def split: option.splits if_splits)

text \<open>
  Claim C9. The claim asks for a list without duplicates. The two fallback paths are
  checked against the list built so far, but the override paths are not checked against
  one another: with \<open>CLAUDE_CONFIG_DIR="/a,/a"\<close> and \<open>/a\<close> on disk, the result names
  \<open>/a\<close> twice.
\<close>

theorem getClaudeConfigDirs_keeps_duplicates:
  "getClaudeConfigDirs dup_host = [''/a'', ''/a''] \<and> \<not> distinct (getClaudeConfigDirs dup_host)"
  by (simp add: getClaudeConfigDirs_def dup_host_def trim_def is_ws_def)


section \<open>The repository\<close>

subsection \<open>The batch upsert\<close>

lemma run_inserts_no_fail:
  "\<forall>e\<in>set es. \<not> fails e \<Longrightarrow>
     run_inserts fails es rows = (foldl (\<lambda>rs e. insert_or_replace e rs) rows es, None)"
  by (induction es arbitrary: rows) auto

lemma run_inserts_fail:
  "\<exists>e\<in>set es. fails e \<Longrightarrow> \<exists>rows'. run_inserts fails es rows = (rows', Some SQLiteError)"
  by (induction es arbitrary: rows) auto

lemma saveEntries_cases:
  "saveEntries es db =
     (if \<exists>e\<in>set es. insert_fails db e then (db, Some SQLiteError)
      else if es = [] then (db, None)
      else (db\<lparr>claude_log_entries := foldl (\<lambda>rs e. insert_or_replace e rs) (claude_log_entries db) es,
               write_log := write_log db @ [SavedEntries es]\<rparr>, None))"
proof (cases "\<exists>e\<in>set es. insert_fails db e")
  case True
  then have "es \<noteq> []" by auto
  moreover from True obtain rows' where
    "run_inserts (insert_fails db) es (claude_log_entries db) = (rows', Some SQLiteError)"
    using run_inserts_fail by blast
  ultimately show ?thesis using True by (simp add: saveEntries_def transaction_def)
next
  case False
  then have "run_inserts (insert_fails db) es (claude_log_entries db) =
      (foldl (\<lambda>rs e. insert_or_replace e rs) (claude_log_entries db) es, None)"
    using run_inserts_no_fail by blast
  with False show ?thesis by (simp add: saveEntries_def transaction_def)
qed

lemma upsert_fold_last:
  "(\<forall>x\<in>set post. uuid x \<noteq> uuid e) \<Longrightarrow>
     filter (\<lambda>r. uuid r = uuid e) (foldl (\<lambda>rs x. insert_or_replace x rs) rows (pre @ e # post)) = [e]"
proof -
  have keep: "filter (\<lambda>r. uuid r = uuid e) (foldl (\<lambda>rs x. insert_or_replace x rs) rs post) =
      filter (\<lambda>r. uuid r = uuid e) rs" if "\<forall>x\<in>set post. uuid x \<noteq> uuid e" for rs
    using that
  proof (induction post arbitrary: rs)
    case Nil
    then show ?case by simp
  next
    case (Cons x post)
    then have "filter (\<lambda>r. uuid r = uuid e) (insert_or_replace x rs) = filter (\<lambda>r. uuid r = uuid e) rs"
      by (auto simp: insert_or_replace_def intro: filter_cong)
    with Cons show ?case by simp
  qed
  have one: "filter (\<lambda>r. uuid r = uuid e) (insert_or_replace e rs) = [e]" for rs
    by (induction rs) (auto simp: insert_or_replace_def)
  assume "\<forall>x\<in>set post. uuid x \<noteq> uuid e"
  then show ?thesis by (simp add: keep one)
qed


text \<open>
  Claim C7. When a first batch holding \<open>e1\<close> has been saved and a second batch is saved
  whose last entry with that \<open>uuid\<close> is \<open>e2\<close>, of another cost, the table holds exactly
  one row with that \<open>uuid\<close>, and it is \<open>e2\<close>; by symmetry the same holds with the two
  saves exchanged. One call of \<open>saveEntries\<close> is all or nothing: either it throws and
  the database is left as it was, or every entry of the batch has been upserted in
  order.
\<close>

theorem saveEntries_upsert_by_uuid:
  "(saveEntries es1 db = (db1, None) \<and> saveEntries (pre @ e2 # post) db1 = (db2, None) \<and>
      e1 \<in> set es1 \<and> uuid e1 = uuid e2 \<and> costUsd e1 \<noteq> costUsd e2 \<and>
      (\<forall>x\<in>set post. uuid x \<noteq> uuid e2)
    \<longrightarrow> filter (\<lambda>r. uuid r = uuid e2) (claude_log_entries db2) = [e2] \<and>
        e1 \<notin> set (claude_log_entries db2))
   \<and>
   (saveEntries es d = (d', res)
    \<longrightarrow> (res = Some SQLiteError \<and> d' = d \<and> (\<exists>e\<in>set es. insert_fails d e)) \<or>
        (res = None \<and> (\<forall>e\<in>set es. \<not> insert_fails d e) \<and>
         claude_log_entries d' =
           foldl (\<lambda>rows e. insert_or_replace e rows) (claude_log_entries d) es \<and>
         claude_processed_files d' = claude_processed_files d))"
proof (intro conjI impI)
  assume h: "saveEntries es1 db = (db1, None) \<and> saveEntries (pre @ e2 # post) db1 = (db2, None) \<and>
      e1 \<in> set es1 \<and> uuid e1 = uuid e2 \<and> costUsd e1 \<noteq> costUsd e2 \<and>
      (\<forall>x\<in>set post. uuid x \<noteq> uuid e2)"
  then have "claude_log_entries db2 =
      foldl (\<lambda>rs x. insert_or_replace x rs) (claude_log_entries db1) (pre @ e2 # post)"
    by (auto simp: saveEntries_cases split: if_splits)
  moreover from h have "\<forall>x\<in>set post. uuid x \<noteq> uuid e2" by simp
  ultimately have f: "filter (\<lambda>r. uuid r = uuid e2) (claude_log_entries db2) = [e2]"
    using upsert_fold_last [of post e2 "claude_log_entries db1" pre] by simp
  show "filter (\<lambda>r. uuid r = uuid e2) (claude_log_entries db2) = [e2]" by (rule f)
  show "e1 \<notin> set (claude_log_entries db2)"
  proof
    assume "e1 \<in> set (claude_log_entries db2)"
    with h have "e1 \<in> set (filter (\<lambda>r. uuid r = uuid e2) (claude_log_entries db2))" by simp
    with f have "e1 = e2" by simp
    with h show False by simp
  qed
next
  assume "saveEntries es d = (d', res)"
  then show "(res = Some SQLiteError \<and> d' = d \<and> (\<exists>e\<in>set es. insert_fails d e)) \<or>
        (res = None \<and> (\<forall>e\<in>set es. \<not> insert_fails d e) \<and>
         claude_log_entries d' =
           foldl (\<lambda>rows e. insert_or_replace e rows) (claude_log_entries d) es \<and>
         claude_processed_files d' = claude_processed_files d)"
    by (auto simp: saveEntries_cases split: if_splits)
qed


theorem saveEntries_upsert_by_uuid_witness:
  "saveEntries [entryA] empty_db =
     (empty_db\<lparr>claude_log_entries := [entryA], write_log := [SavedEntries [entryA]]\<rparr>, None) \<and>
   saveEntries [entryA\<lparr>costUsd := 1 / 20\<rparr>]
       (empty_db\<lparr>claude_log_entries := [entryA], write_log := [SavedEntries [entryA]]\<rparr>) =
     (empty_db\<lparr>claude_log_entries := [entryA\<lparr>costUsd := 1 / 20\<rparr>],
        write_log := [SavedEntries [entryA], SavedEntries [entryA\<lparr>costUsd := 1 / 20\<rparr>]]\<rparr>, None) \<and>
   uuid entryA = uuid (entryA\<lparr>costUsd := 1 / 20\<rparr>) \<and>
   costUsd entryA \<noteq> costUsd (entryA\<lparr>costUsd := 1 / 20\<rparr>) \<and>
   filter (\<lambda>r. uuid r = ''a'')
     (claude_log_entries (empty_db\<lparr>claude_log_entries := [entryA\<lparr>costUsd := 1 / 20\<rparr>],
        write_log := [SavedEntries [entryA], SavedEntries [entryA\<lparr>costUsd := 1 / 20\<rparr>]]\<rparr>)) =
     [entryA\<lparr>costUsd := 1 / 20\<rparr>] \<and>
   saveEntries [entryA, entryB] (empty_db\<lparr>insert_fails := \<lambda>e. uuid e = ''b''\<rparr>) =
     (empty_db\<lparr>insert_fails := \<lambda>e. uuid e = ''b''\<rparr>, Some SQLiteError)"
proof -
  let ?e2 = "entryA\<lparr>costUsd := 1 / 20\<rparr>"
  let ?db1 = "empty_db\<lparr>claude_log_entries := [entryA], write_log := [SavedEntries [entryA]]\<rparr>"
  let ?db2 = "empty_db\<lparr>claude_log_entries := [?e2],
        write_log := [SavedEntries [entryA], SavedEntries [?e2]]\<rparr>"
  let ?dbf = "empty_db\<lparr>insert_fails := \<lambda>e. uuid e = ''b''\<rparr>"
  have s1: "saveEntries [entryA] empty_db = (?db1, None)"
    by (simp add: saveEntries_cases empty_db_def insert_or_replace_def)
  have s2: "saveEntries ([] @ ?e2 # []) ?db1 = (?db2, None)"
    by (simp add: saveEntries_cases empty_db_def insert_or_replace_def entryA_def)
  have s3: "saveEntries [entryA, entryB] ?dbf = (?dbf, Some SQLiteError)"
    by (simp add: saveEntries_cases empty_db_def entryB_def)
  have h: "uuid entryA = uuid ?e2" "costUsd entryA \<noteq> costUsd ?e2" "entryA \<in> set [entryA]"
    "\<forall>x\<in>set []. uuid x \<noteq> uuid ?e2"
    by (simp_all add: entryA_def)
  from saveEntries_upsert_by_uuid [where ?es1.0 = "[entryA]" and db = empty_db and ?db1.0 = ?db1
      and pre = "[]" and ?e2.0 = ?e2 and post = "[]" and ?db2.0 = ?db2 and ?e1.0 = entryA
      and es = "[entryA, entryB]" and d = ?dbf and d' = ?dbf and res = "Some SQLiteError"]
    s1 s2 s3 h
  have "filter (\<lambda>r. uuid r = uuid ?e2) (claude_log_entries ?db2) = [?e2]" by blast
  then have "filter (\<lambda>r. uuid r = ''a'') (claude_log_entries ?db2) = [?e2]"
    by (simp add: entryA_def)
  with s1 s2 s3 h show ?thesis by simp
qed

subsection \<open>Billing blocks\<close>

lemma div_last_unit:
  fixes t b :: int
  assumes b: "0 < b"
  shows "(t + b - 1) div b = t div b \<longleftrightarrow> b dvd t"
proof -
  define q where "q = t div b"
  define m where "m = t mod b"
  have t: "t = q * b + m" by (simp add: q_def m_def)
  have m: "0 \<le> m" "m < b" using b by (simp_all add: m_def)
  have bn: "b \<noteq> 0" using b by simp
  show ?thesis
  proof (cases "m = 0")
    case True
    have e: "t + b - 1 = (b - 1) + q * b" using t True by simp
    have "((b - 1) + q * b) div b = q + (b - 1) div b" by (rule div_mult_self1 [OF bn])
    also have "(b - 1) div b = 0" using b by (simp add: div_pos_pos_trivial)
    finally have "(t + b - 1) div b = t div b" by (simp only: e q_def)
    moreover have "b dvd t" using True by (simp add: m_def dvd_eq_mod_eq_0)
    ultimately show ?thesis by simp
  next
    case False
    have e: "t + b - 1 = (m - 1) + (q + 1) * b" using t by (simp add: algebra_simps)
    have "((m - 1) + (q + 1) * b) div b = (q + 1) + (m - 1) div b" by (rule div_mult_self1 [OF bn])
    also have "(m - 1) div b = 0" using m False by (simp add: div_pos_pos_trivial)
    finally have "(t + b - 1) div b = t div b + 1" by (simp only: e q_def)
    then have "(t + b - 1) div b \<noteq> t div b" by simp
    moreover have "\<not> b dvd t" using False by (simp add: m_def dvd_eq_mod_eq_0)
    ultimately show ?thesis by simp
  qed
qed

lemma div_bounds:
  fixes t b :: int
  assumes b: "0 < b"
  shows "(t div b) * b \<le> t \<and> t < (t div b) * b + b"
proof -
  have "t = (t div b) * b + t mod b" by simp
  moreover have "0 \<le> t mod b" "t mod b < b" using b by simp_all
  ultimately show ?thesis by linarith
qed

lemma blockSize_val: "blockSize = 18000000"
  by (simp add: blockSize_def)

lemma sqlite_div_nonneg: "0 \<le> t \<Longrightarrow> sqlite_div t 18000000 = t div 18000000"
  by (simp add: sqlite_div_def)

lemma blockStartOf_nonneg: "0 \<le> t \<Longrightarrow> blockStartOf t = (t div 18000000) * 18000000"
  by (simp add: blockStartOf_def sqlite_div_nonneg blockSize_val)

lemma blockEndOf_eq: "blockEndOf t = blockStartOf t + 18000000"
  by (simp add: blockEndOf_def blockStartOf_def blockSize_val algebra_simps)

lemma blockStartOf_dvd: "18000000 dvd blockStartOf t"
  by (simp add: blockStartOf_def blockSize_val)

lemma blockStartOf_next: "0 \<le> t \<Longrightarrow> blockStartOf (t + 18000000) = blockStartOf t + 18000000"
  by (simp add: blockStartOf_nonneg)

lemma blockStartOf_last_ms:
  "0 \<le> t \<Longrightarrow> blockStartOf (t + 18000000 - 1) = blockStartOf t \<longleftrightarrow> 18000000 dvd t"
  using div_last_unit [of 18000000 t] by (simp add: blockStartOf_nonneg)

lemma blockStartOf_bounds: "0 \<le> t \<Longrightarrow> blockStartOf t \<le> t \<and> t < blockStartOf t + 18000000"
  using div_bounds [of 18000000 t] by (simp add: blockStartOf_nonneg)

lemma billingGroup_blockEnd:
  "g \<noteq> [] \<Longrightarrow> \<forall>r\<in>set g. blockStartOf (timestamp r) = k \<Longrightarrow>
     blockEnd (billingGroup k g) = k + 18000000"
  by (cases g) (simp_all add: billingGroup_def blockEndOf_eq)

lemma billing_keys_desc:
  "sorted_wrt (>) (rev (sort (remdups (ks :: int list))))"
proof -
  have "sorted_wrt (<) (sort (remdups ks))"
    by (simp add: strict_sorted_iff)
  then show ?thesis by (simp add: sorted_wrt_rev)
qed

lemma getBillingBlockUsage_starts:
  "map blockStart (getBillingBlockUsage st en db) =
     rev (sort (remdups (map (\<lambda>r. blockStartOf (timestamp r))
       (filter (billingWhere st en) (claude_log_entries db)))))"
  by (simp add: getBillingBlockUsage_def Let_def billingGroup_def comp_def)

lemma getBillingBlockUsage_block:
  assumes "b \<in> set (getBillingBlockUsage st en db)"
  shows "\<exists>r\<in>set (claude_log_entries db). billingWhere st en r \<and>
           blockStart b = blockStartOf (timestamp r) \<and> blockEnd b = blockStart b + 18000000"
proof -
  let ?rows = "filter (billingWhere st en) (claude_log_entries db)"
  from assms obtain k where k: "k \<in> set (map (\<lambda>r. blockStartOf (timestamp r)) ?rows)"
    and b: "b = billingGroup k (filter (\<lambda>r. blockStartOf (timestamp r) = k) ?rows)"
    by (auto simp: getBillingBlockUsage_def Let_def)
  then obtain r where r: "r \<in> set ?rows" "blockStartOf (timestamp r) = k" by auto
  let ?g = "filter (\<lambda>r. blockStartOf (timestamp r) = k) ?rows"
  from r have "r \<in> set ?g" by simp
  then have ne: "?g \<noteq> []" by (metis empty_iff list.set(1))
  have "blockEnd b = k + 18000000"
    unfolding b by (rule billingGroup_blockEnd [OF ne]) simp
  moreover have "blockStart b = k" by (simp add: b billingGroup_def)
  ultimately show ?thesis using r by auto
qed

lemma getBillingBlockUsage_covers:
  assumes "r \<in> set (claude_log_entries db)" "billingWhere st en r"
  shows "\<exists>b\<in>set (getBillingBlockUsage st en db). blockStart b = blockStartOf (timestamp r)"
proof -
  have "blockStartOf (timestamp r) \<in> set (map blockStart (getBillingBlockUsage st en db))"
    using assms by (simp add: getBillingBlockUsage_starts)
  then show ?thesis by auto
qed

text \<open>
  Claim C8, amended. A stored entry with timestamp \<open>t \<ge> 0\<close> that passes the time
  filter lies in a returned block that starts at \<open>floor(t / 18000000) * 18000000\<close>, ends
  18000000 ms later and contains \<open>t\<close>. Start and end of every returned block are
  multiples of 18000000. For \<open>t \<ge> 0\<close>, \<open>t + 18000000\<close> lies in the next block, and
  \<open>t + 18000000 - 1\<close> lies in the block of \<open>t\<close> exactly when \<open>t\<close> is itself a
  multiple of 18000000, that is a block start. The blocks are returned newest first,
  each start once.
\<close>

theorem billing_blocks_epoch_aligned:
  "(r \<in> set (claude_log_entries db) \<and> billingWhere startTime endTime r \<and> 0 \<le> timestamp r \<longrightarrow>
      (\<exists>b\<in>set (getBillingBlockUsage startTime endTime db).
         blockStart b = (timestamp r div 18000000) * 18000000 \<and>
         blockEnd b = blockStart b + 18000000 \<and>
         blockStart b \<le> timestamp r \<and> timestamp r < blockEnd b)) \<and>
   (\<forall>b\<in>set (getBillingBlockUsage startTime endTime db).
      18000000 dvd blockStart b \<and> 18000000 dvd blockEnd b) \<and>
   (0 \<le> t \<longrightarrow>
      blockStartOf t = (t div 18000000) * 18000000 \<and>
      blockStartOf (t + 18000000) = blockStartOf t + 18000000 \<and>
      (blockStartOf (t + 18000000 - 1) = blockStartOf t \<longleftrightarrow> 18000000 dvd t)) \<and>
   sorted_wrt (>) (map blockStart (getBillingBlockUsage startTime endTime db))"
proof (intro conjI impI ballI)
  assume h: "r \<in> set (claude_log_entries db) \<and> billingWhere startTime endTime r \<and> 0 \<le> timestamp r"
  then obtain b where b: "b \<in> set (getBillingBlockUsage startTime endTime db)"
    "blockStart b = blockStartOf (timestamp r)"
    using getBillingBlockUsage_covers by blast
  from getBillingBlockUsage_block [OF b(1)]
  have e: "blockEnd b = blockStart b + 18000000" by blast
  from h have "blockStartOf (timestamp r) = (timestamp r div 18000000) * 18000000"
    by (simp add: blockStartOf_nonneg)
  moreover from h blockStartOf_bounds [of "timestamp r"]
  have "blockStartOf (timestamp r) \<le> timestamp r \<and> timestamp r < blockStartOf (timestamp r) + 18000000"
    by blast
  moreover note b e
  ultimately
  show "\<exists>b\<in>set (getBillingBlockUsage startTime endTime db).
         blockStart b = (timestamp r div 18000000) * 18000000 \<and>
         blockEnd b = blockStart b + 18000000 \<and>
         blockStart b \<le> timestamp r \<and> timestamp r < blockEnd b"
    by (intro bexI [of _ b]) simp_all
next
  fix b assume "b \<in> set (getBillingBlockUsage startTime endTime db)"
  from getBillingBlockUsage_block [OF this]
  obtain r :: ParsedLogEntry where
    r: "blockStart b = blockStartOf (timestamp r)" "blockEnd b = blockStart b + 18000000"
    by blast
  show "18000000 dvd blockStart b" by (simp add: r(1) blockStartOf_dvd)
  then show "18000000 dvd blockEnd b" by (simp add: r(2))
next
  assume "0 \<le> t"
  then show "blockStartOf t = (t div 18000000) * 18000000"
    "blockStartOf (t + 18000000) = blockStartOf t + 18000000"
    "blockStartOf (t + 18000000 - 1) = blockStartOf t \<longleftrightarrow> 18000000 dvd t"
    by (rule blockStartOf_nonneg, rule blockStartOf_next, rule blockStartOf_last_ms)
next
  show "sorted_wrt (>) (map blockStart (getBillingBlockUsage startTime endTime db))"
    by (simp only: getBillingBlockUsage_starts billing_keys_desc)
qed

text \<open>
  Claim C8, as stated, fails for a timestamp that is not a block start: entries at
  \<open>t = 1\<close> and at \<open>t + 18000000 - 1\<close> fall into two blocks.
\<close>

theorem billing_same_block_counterexample:
  "0 \<le> (1::int) \<and>
   map blockStart (getBillingBlockUsage None None
     (empty_db\<lparr>claude_log_entries :=
        [entryA\<lparr>timestamp := 1\<rparr>, entryB\<lparr>timestamp := 1 + 18000000 - 1\<rparr>]\<rparr>)) = [18000000, 0]"
  by (simp add: getBillingBlockUsage_starts billingWhere_def empty_db_def blockStartOf_nonneg)

theorem billing_blocks_epoch_aligned_witness:
  "entryA \<in> set (claude_log_entries (empty_db\<lparr>claude_log_entries := [entryA, entryB]\<rparr>)) \<and>
   billingWhere None None entryA \<and> 0 \<le> timestamp entryA \<and> 0 \<le> (36000000::int) \<and>
   (\<exists>b\<in>set (getBillingBlockUsage None None (empty_db\<lparr>claude_log_entries := [entryA, entryB]\<rparr>)).
      blockStart b = 1704060000000 \<and> blockEnd b = 1704078000000) \<and>
   blockStartOf (36000000 + 18000000 - 1) = blockStartOf 36000000 \<and>
   blockStartOf (36000000 + 18000000) = blockStartOf 36000000 + 18000000"
proof -
  let ?db = "empty_db\<lparr>claude_log_entries := [entryA, entryB]\<rparr>"
  have h: "entryA \<in> set (claude_log_entries ?db)" "billingWhere None None entryA"
    "0 \<le> timestamp entryA" "0 \<le> (36000000::int)" "timestamp entryA = 1704067200000"
    by (simp_all add: billingWhere_def entryA_def)
  note T = billing_blocks_epoch_aligned [of entryA ?db None None 36000000]
  from T h have "\<exists>b\<in>set (getBillingBlockUsage None None ?db).
         blockStart b = (timestamp entryA div 18000000) * 18000000 \<and>
         blockEnd b = blockStart b + 18000000 \<and>
         blockStart b \<le> timestamp entryA \<and> timestamp entryA < blockEnd b"
    by blast
  then have 1: "\<exists>b\<in>set (getBillingBlockUsage None None ?db).
      blockStart b = 1704060000000 \<and> blockEnd b = 1704078000000"
    by (auto simp: h(5))
  from T h have "blockStartOf (36000000 + 18000000) = blockStartOf 36000000 + 18000000"
    and "(blockStartOf (36000000 + 18000000 - 1) = blockStartOf 36000000 \<longleftrightarrow> (18000000::int) dvd 36000000)"
    by blast+
  with 1 h show ?thesis by simp
qed


section \<open>The scanner\<close>

lemma parse_lines_entries_from:
  "e \<in> set (fst (parse_lines rt fp pp mtime i ls)) \<Longrightarrow>
     \<exists>l n. l \<in> set ls \<and> parseLine rt l fp pp mtime n = (Some e, None)"
proof (induction ls arbitrary: i)
  case Nil
  then show ?case by simp
next
  case (Cons l ls)
  obtain entry error where p: "parseLine rt l fp pp mtime (Some (i + 1)) = (entry, error)"
    by (cases "parseLine rt l fp pp mtime (Some (i + 1))")
  obtain es errs where r: "parse_lines rt fp pp mtime (Suc i) ls = (es, errs)"
    by (cases "parse_lines rt fp pp mtime (Suc i) ls")
  from Cons.prems p r have "e \<in> set (case entry of None \<Rightarrow> [] | Some x \<Rightarrow> [x]) \<or> e \<in> set es"
    by simp
  then show ?case
  proof
    assume "e \<in> set (case entry of None \<Rightarrow> [] | Some x \<Rightarrow> [x])"
    then have "entry = Some e" by (cases entry) simp_all
    with p have "parseLine rt l fp pp mtime (Some (i + 1)) = (Some e, error)" by simp
    moreover from this have "error = None" using parseLine_Some by blast
    ultimately show ?thesis by auto
  next
    assume "e \<in> set es"
    with r have "e \<in> set (fst (parse_lines rt fp pp mtime (Suc i) ls))" by simp
    from Cons.IH [OF this] show ?thesis by auto
  qed
qed

lemma parseJSONLContent_entries_from:
  "e \<in> set (pr_entries (parseJSONLContent rt content fp pp mtime)) \<Longrightarrow>
     \<exists>l n. parseLine rt l fp pp mtime n = (Some e, None)"
proof -
  assume a: "e \<in> set (pr_entries (parseJSONLContent rt content fp pp mtime))"
  have "pr_entries (parseJSONLContent rt content fp pp mtime) =
          fst (parse_lines rt fp pp mtime 0 (str_split LF content))"
    by (simp add: parseJSONLContent_def split: prod.splits)
  with a parse_lines_entries_from show ?thesis by metis
qed

lemma parseJSONLContentFromLine_entries_from:
  "e \<in> set (pr_entries (parseJSONLContentFromLine rt content fp pp mtime k)) \<Longrightarrow>
     \<exists>l n. parseLine rt l fp pp mtime n = (Some e, None)"
proof -
  assume a: "e \<in> set (pr_entries (parseJSONLContentFromLine rt content fp pp mtime k))"
  have "pr_entries (parseJSONLContentFromLine rt content fp pp mtime k) =
          fst (parse_lines rt fp pp mtime k (drop k (str_split LF content)))"
    by (simp add: parseJSONLContentFromLine_def Let_def split: prod.splits)
  with a parse_lines_entries_from show ?thesis by metis
qed


lemma scanFileModified_entries:
  "entries (scanFileModified rt h cds pfs acc fp) =
     entries acc @ entries (scanFileModified rt h cds pfs emptyScanResult fp)"
  by (simp add: scanFileModified_def readFailed_def emptyScanResult_def Let_def
      split: sum.splits prod.splits)


lemma scanFileModified_new_entries_from:
  "e \<in> set (entries (scanFileModified rt h cds pfs emptyScanResult fp)) \<Longrightarrow>
     \<exists>l pp mtime n. parseLine rt l fp pp mtime n = (Some e, None)"
  by (auto simp: scanFileModified_def readFailed_def emptyScanResult_def Let_def
      split: sum.splits prod.splits if_splits)
    (blast dest: parseJSONLContent_entries_from parseJSONLContentFromLine_entries_from)+

lemma foldl_nested:
  "foldl (\<lambda>acc d. foldl f acc (g d)) acc ds = foldl f acc (concat (map g ds))"
  by (induction ds arbitrary: acc) simp_all

lemma foldl_entries:
  assumes step: "\<And>acc x. entries (f acc x) = entries acc @ new x"
  shows "entries (foldl f acc xs) = entries acc @ concat (map new xs)"
  by (induction xs arbitrary: acc) (simp_all add: step)


lemma scanModifiedFiles_entries:
  "entries (scanModifiedFiles rt h pfs) =
     concat (map (\<lambda>fp. entries (scanFileModified rt h (getClaudeConfigDirs h) pfs emptyScanResult fp))
       (visited h))"
proof (cases "getClaudeConfigDirs h = []")
  case True
  then show ?thesis by (simp add: scanModifiedFiles_def emptyScanResult_def visited_def)
next
  case False
  have "entries (foldl (scanFileModified rt h (getClaudeConfigDirs h) pfs)
          (emptyScanResult\<lparr>configDirsUsed := getClaudeConfigDirs h\<rparr>) (visited h)) =
        entries (emptyScanResult\<lparr>configDirsUsed := getClaudeConfigDirs h\<rparr>) @
        concat (map (\<lambda>fp. entries (scanFileModified rt h (getClaudeConfigDirs h) pfs emptyScanResult fp))
          (visited h))"
    by (rule foldl_entries) (rule scanFileModified_entries)
  with False show ?thesis
    by (simp add: scanModifiedFiles_def Let_def foldl_nested visited_def emptyScanResult_def)
qed



section \<open>The service\<close>


lemma saveEntries_other_fields:
  "claude_processed_files (fst (saveEntries es db)) = claude_processed_files db"
  "insert_fails (fst (saveEntries es db)) = insert_fails db"
  by (simp_all add: saveEntries_cases)

lemma updateOneFile_log_entries:
  "claude_log_entries (repository (updateOneFile h' now svc fe)) = claude_log_entries (repository svc)"
  by (cases fe) (simp add: updateOneFile_def markFileProcessed_def Let_def split: option.splits)

lemma updateProcessedFilesFromScan_log_entries:
  "claude_log_entries (repository (updateProcessedFilesFromScan h' now result svc)) =
     claude_log_entries (repository svc)"
proof -
  have "claude_log_entries (repository (foldl (updateOneFile h' now) svc fes)) =
          claude_log_entries (repository svc)" for fes
    by (induction fes arbitrary: svc) (simp_all add: updateOneFile_log_entries)
  then show ?thesis by (simp add: updateProcessedFilesFromScan_def Let_def)
qed





subsection \<open>The example host\<close>

lemma demo_dirs: "getClaudeConfigDirs (demo_host c mt sz) = [''/home/u/.claude'']"
  by (simp add: getClaudeConfigDirs_def demo_host_def)

lemma demo_visited: "visited (demo_host c mt sz) = [demo_file]"
  by (simp add: visited_def demo_dirs getProjectsDir_def) (simp add: demo_host_def)

lemma demo_projectPath:
  "projectPathUnder (demo_host c mt sz) demo_file ''/home/u/.claude'' = Some ''app1''"
  by (simp add: projectPathUnder_def getProjectsDir_def demo_host_def demo_file_def)

lemma demo_stat: "stat (demo_host c mt sz) demo_file = Inr (mt, sz)"
  "readFile (demo_host c mt sz) demo_file = Inr c"
  by (simp_all add: demo_host_def)

lemma blank_line: "parseLine rt [] fp pp m n = (None, None)"
  by (simp add: parseLine_def trim_def)

lemma demo_parse_A: "parseJSONLContent demo_rt (lineA @ [LF]) demo_file ''app1'' 1000 =
   \<lparr>pr_entries = [entryA], pr_errors = []\<rparr>"
  by (simp add: parseJSONLContent_def str_split_line LF_notin_lines parseLine_A blank_line)

subsection \<open>Counting the entries of each file\<close>

lemma countEntry_fold:
  "distinct (map fst al) \<Longrightarrow>
     distinct (map fst (foldl countEntry al es)) \<and>
     map_of (foldl countEntry al es) p =
       (case map_of al p of
          None \<Rightarrow> (if filter (\<lambda>e. filePath e = p) es = [] then None
                    else Some (length (filter (\<lambda>e. filePath e = p) es)))
        | Some c \<Rightarrow> Some (c + length (filter (\<lambda>e. filePath e = p) es)))"
proof (induction es arbitrary: al)
  case Nil
  then show ?case by (simp split: option.splits)
next
  case (Cons e es)
  let ?al = "countEntry al e"
  have d: "distinct (map fst ?al)"
    using Cons.prems by (simp add: countEntry_def Let_def distinct_update)
  have m: "map_of ?al p =
      (if filePath e = p then Some ((case map_of al p of None \<Rightarrow> 0 | Some c \<Rightarrow> c) + 1)
       else map_of al p)"
    by (auto simp: countEntry_def Let_def update_conv')
  from Cons.IH [OF d] m show ?case
    by (auto split: option.splits if_splits)
qed

lemma fileEntries_of_result:
  "distinct (map fst (foldl countEntry [] es)) \<and>
   map_of (foldl countEntry [] es) p =
     (if filter (\<lambda>e. filePath e = p) es = [] then None
      else Some (length (filter (\<lambda>e. filePath e = p) es)))"
  using countEntry_fold [of "[]" es p] by simp

subsection \<open>Advancing the watermarks\<close>

lemma updateOneFile_at:
  "processedFiles (updateOneFile h' now svc (fp, n)) p =
     (if p = fp then
        (case getFileMetadata h' fp of
           None \<Rightarrow> processedFiles svc fp
         | Some md \<Rightarrow>
             Some \<lparr>pf_filePath = fp, lastModifiedAt = modifiedAt md, lastSize = md_size md,
                   lastLineCount = (case processedFiles svc fp of None \<Rightarrow> 0
                                    | Some x \<Rightarrow> lastLineCount x) + n,
                   processedAt = now\<rparr>)
      else processedFiles svc p)"
  "claude_processed_files (repository (updateOneFile h' now svc (fp, n))) p =
     (if p = fp then
        (case getFileMetadata h' fp of
           None \<Rightarrow> claude_processed_files (repository svc) fp
         | Some md \<Rightarrow>
             Some \<lparr>pf_filePath = fp, lastModifiedAt = modifiedAt md, lastSize = md_size md,
                   lastLineCount = (case processedFiles svc fp of None \<Rightarrow> 0
                                    | Some x \<Rightarrow> lastLineCount x) + n,
                   processedAt = now\<rparr>)
      else claude_processed_files (repository svc) p)"
  by (simp_all add: updateOneFile_def markFileProcessed_def Let_def split: option.splits)

lemma fold_updateOneFile:
  "distinct (map fst fes) \<Longrightarrow>
     processedFiles (foldl (updateOneFile h' now) svc fes) p =
       (case map_of fes p of
          None \<Rightarrow> processedFiles svc p
        | Some n \<Rightarrow>
            (case getFileMetadata h' p of
               None \<Rightarrow> processedFiles svc p
             | Some md \<Rightarrow>
                 Some \<lparr>pf_filePath = p, lastModifiedAt = modifiedAt md, lastSize = md_size md,
                       lastLineCount = (case processedFiles svc p of None \<Rightarrow> 0
                                        | Some x \<Rightarrow> lastLineCount x) + n,
                       processedAt = now\<rparr>)) \<and>
     claude_processed_files (repository (foldl (updateOneFile h' now) svc fes)) p =
       (case map_of fes p of
          None \<Rightarrow> claude_processed_files (repository svc) p
        | Some n \<Rightarrow>
            (case getFileMetadata h' p of
               None \<Rightarrow> claude_processed_files (repository svc) p
             | Some md \<Rightarrow>
                 Some \<lparr>pf_filePath = p, lastModifiedAt = modifiedAt md, lastSize = md_size md,
                       lastLineCount = (case processedFiles svc p of None \<Rightarrow> 0
                                        | Some x \<Rightarrow> lastLineCount x) + n,
                       processedAt = now\<rparr>))"
proof (induction fes arbitrary: svc)
  case Nil
  then show ?case by simp
next
  case (Cons fe fes)
  obtain fp n where fe: "fe = (fp, n)" by (cases fe)
  from Cons.prems fe have d: "distinct (map fst fes)" and nin: "fp \<notin> fst ` set fes" by auto
  from nin have none: "map_of fes fp = None" by (simp add: map_of_eq_None_iff)
  note IH = Cons.IH [OF d, of "updateOneFile h' now svc (fp, n)"]
  show ?case
  proof (cases "p = fp")
    case True
    show ?thesis unfolding True using IH [unfolded True] none
      by (simp add: fe updateOneFile_at)
  next
    case False
    have same: "processedFiles (updateOneFile h' now svc (fp, n)) p = processedFiles svc p"
      "claude_processed_files (repository (updateOneFile h' now svc (fp, n))) p =
         claude_processed_files (repository svc) p"
      using False by (simp_all add: updateOneFile_at)
    from IH [unfolded same] False show ?thesis by (simp add: fe)
  qed
qed

lemma updateProcessedFilesFromScan_at:
  "processedFiles (updateProcessedFilesFromScan h' now result svc) p =
     (if filter (\<lambda>e. filePath e = p) (entries result) = [] then processedFiles svc p
      else (case getFileMetadata h' p of
              None \<Rightarrow> processedFiles svc p
            | Some md \<Rightarrow>
                Some \<lparr>pf_filePath = p, lastModifiedAt = modifiedAt md, lastSize = md_size md,
                      lastLineCount = (case processedFiles svc p of None \<Rightarrow> 0
                                       | Some x \<Rightarrow> lastLineCount x) +
                        length (filter (\<lambda>e. filePath e = p) (entries result)),
                      processedAt = now\<rparr>))"
  "claude_processed_files (repository (updateProcessedFilesFromScan h' now result svc)) p =
     (if filter (\<lambda>e. filePath e = p) (entries result) = []
      then claude_processed_files (repository svc) p
      else (case getFileMetadata h' p of
              None \<Rightarrow> claude_processed_files (repository svc) p
            | Some md \<Rightarrow>
                Some \<lparr>pf_filePath = p, lastModifiedAt = modifiedAt md, lastSize = md_size md,
                      lastLineCount = (case processedFiles svc p of None \<Rightarrow> 0
                                       | Some x \<Rightarrow> lastLineCount x) +
                        length (filter (\<lambda>e. filePath e = p) (entries result)),
                      processedAt = now\<rparr>))"
  using fileEntries_of_result [of "entries result" p]
    fold_updateOneFile [of "foldl countEntry [] (entries result)" h' now svc p]
  by (simp_all add: updateProcessedFilesFromScan_def Let_def)


subsection \<open>The three triggers\<close>

lemma saveEntries_empty: "saveEntries [] db = (db, None)"
  by (simp add: saveEntries_def)

lemma scanAndImport_cases:
  "scanAndImport rt h h' now svc =
     (case saveEntries (entries (scanAllJSONLFiles rt h)) (repository svc) of
        (db, Some err) \<Rightarrow> (svc, Inl err)
      | (db, None) \<Rightarrow>
          (updateProcessedFilesFromScan h' now (scanAllJSONLFiles rt h) (svc\<lparr>repository := db\<rparr>),
           Inr (scanAllJSONLFiles rt h)))"
proof (cases "entries (scanAllJSONLFiles rt h) = []")
  case True
  then show ?thesis by (simp add: scanAndImport_def saveEntries_empty Let_def)
next
  case False
  then show ?thesis
    by (auto simp: scanAndImport_def Let_def saveEntries_cases split: prod.splits option.splits)
qed

lemma incrementalScan_cases:
  "incrementalScan rt h h' now svc =
     (case saveEntries (entries (scanModifiedFiles rt h (processedFiles svc))) (repository svc) of
        (db, Some err) \<Rightarrow> (svc, Inl err)
      | (db, None) \<Rightarrow>
          (updateProcessedFilesFromScan h' now (scanModifiedFiles rt h (processedFiles svc))
             (svc\<lparr>repository := db\<rparr>),
           Inr (scanModifiedFiles rt h (processedFiles svc))))"
proof (cases "entries (scanModifiedFiles rt h (processedFiles svc)) = []")
  case True
  then show ?thesis by (simp add: incrementalScan_def saveEntries_empty Let_def)
next
  case False
  then show ?thesis
    by (auto simp: incrementalScan_def Let_def saveEntries_cases split: prod.splits option.splits)
qed

lemma processModifiedFile_cases:
  "processModifiedFile rt h h' now fp svc =
     (case getFileMetadata h fp of
        None \<Rightarrow>
          (svc\<lparr>repository := deleteEntriesFromFile fp (repository svc),
               processedFiles := (processedFiles svc)(fp := None)\<rparr>, Inr None)
      | Some metadata \<Rightarrow>
         (case saveEntries (entries (scanModifiedFiles rt h ((processedFiles svc)(fp := None))))
                 (repository svc) of
            (db, Some err) \<Rightarrow> (svc, Inl err)
          | (db, None) \<Rightarrow>
              (updateProcessedFilesFromScan h' now
                 (scanModifiedFiles rt h ((processedFiles svc)(fp := None)))
                 (svc\<lparr>repository := db\<rparr>),
               Inr (Some (scanModifiedFiles rt h ((processedFiles svc)(fp := None)))))))"
proof (cases "entries (scanModifiedFiles rt h ((processedFiles svc)(fp := None))) = []")
  case True
  then show ?thesis
    by (simp add: processModifiedFile_def saveEntries_empty Let_def split: option.splits)
next
  case False
  then show ?thesis
    by (auto simp: processModifiedFile_def Let_def saveEntries_cases
        split: prod.splits option.splits)
qed

text \<open>A scan that has returned a result has saved its entries and then advanced the watermarks.\<close>

lemma scan_success_form:
  assumes "(svc', Inr result) = scanAndImport rt h h' now svc \<or>
           (svc', Inr result) = incrementalScan rt h h' now svc \<or>
           (svc', Inr (Some result)) = processModifiedFile rt h h' now fp svc"
  shows "snd (saveEntries (entries result) (repository svc)) = None \<and>
         svc' = updateProcessedFilesFromScan h' now result
                  (svc\<lparr>repository := fst (saveEntries (entries result) (repository svc))\<rparr>)"
  using assms
proof (elim disjE)
  assume a: "(svc', Inr result) = scanAndImport rt h h' now svc"
  obtain db res where s: "saveEntries (entries (scanAllJSONLFiles rt h)) (repository svc) = (db, res)"
    by (cases "saveEntries (entries (scanAllJSONLFiles rt h)) (repository svc)")
  from a s show ?thesis
    by (cases res) (auto simp: scanAndImport_cases)
next
  assume a: "(svc', Inr result) = incrementalScan rt h h' now svc"
  obtain db res where s: "saveEntries (entries (scanModifiedFiles rt h (processedFiles svc)))
      (repository svc) = (db, res)"
    by (cases "saveEntries (entries (scanModifiedFiles rt h (processedFiles svc))) (repository svc)")
  from a s show ?thesis
    by (cases res) (auto simp: incrementalScan_cases)
next
  assume a: "(svc', Inr (Some result)) = processModifiedFile rt h h' now fp svc"
  obtain db res where s: "saveEntries (entries (scanModifiedFiles rt h ((processedFiles svc)(fp := None))))
      (repository svc) = (db, res)"
    by (cases "saveEntries (entries (scanModifiedFiles rt h ((processedFiles svc)(fp := None))))
      (repository svc)")
  from a s show ?thesis
    by (cases res; cases "getFileMetadata h fp") (auto simp: processModifiedFile_cases)
qed

lemma getFileMetadata_stat:
  "stat h p = Inr (mt, sz) \<Longrightarrow> getFileMetadata h p = Some \<lparr>modifiedAt = mt, md_size = sz\<rparr>"
  by (simp add: getFileMetadata_def)

text \<open>
  What a scan that has returned a result does to the watermarks: a file with at least one
  entry in the result, whose metadata can be read after the scan, gets the post-scan
  mtime and size and the prior in-memory count plus the number of its entries, in memory
  and in the table; a file with no entry in the result keeps what it had.
\<close>

lemma watermark_advanced_for_files_with_entries:
  "((svc', Inr result) = scanAndImport rt h h' now svc \<or>
    (svc', Inr result) = incrementalScan rt h h' now svc \<or>
    (svc', Inr (Some result)) = processModifiedFile rt h h' now fp svc) \<longrightarrow>
   (filter (\<lambda>e. filePath e = p) (entries result) \<noteq> [] \<and> stat h' p = Inr (mt, sz) \<longrightarrow>
      processedFiles svc' p =
        Some \<lparr>pf_filePath = p, lastModifiedAt = mt, lastSize = sz,
              lastLineCount = (case processedFiles svc p of None \<Rightarrow> 0 | Some x \<Rightarrow> lastLineCount x) +
                length (filter (\<lambda>e. filePath e = p) (entries result)),
              processedAt = now\<rparr> \<and>
      claude_processed_files (repository svc') p =
        Some \<lparr>pf_filePath = p, lastModifiedAt = mt, lastSize = sz,
              lastLineCount = (case processedFiles svc p of None \<Rightarrow> 0 | Some x \<Rightarrow> lastLineCount x) +
                length (filter (\<lambda>e. filePath e = p) (entries result)),
              processedAt = now\<rparr>) \<and>
   (filter (\<lambda>e. filePath e = q) (entries result) = [] \<longrightarrow>
      processedFiles svc' q = processedFiles svc q \<and>
      claude_processed_files (repository svc') q = claude_processed_files (repository svc) q)"
proof (intro impI conjI)
  assume a: "(svc', Inr result) = scanAndImport rt h h' now svc \<or>
    (svc', Inr result) = incrementalScan rt h h' now svc \<or>
    (svc', Inr (Some result)) = processModifiedFile rt h h' now fp svc"
  note f = scan_success_form [OF a]
  let ?mid = "svc\<lparr>repository := fst (saveEntries (entries result) (repository svc))\<rparr>"
  have mid: "processedFiles ?mid = processedFiles svc"
    "claude_processed_files (repository ?mid) = claude_processed_files (repository svc)"
    by (simp_all add: saveEntries_other_fields)
  from f have svc': "svc' = updateProcessedFilesFromScan h' now result ?mid" by simp
  {
    assume b: "filter (\<lambda>e. filePath e = p) (entries result) \<noteq> [] \<and> stat h' p = Inr (mt, sz)"
    then have md: "getFileMetadata h' p = Some \<lparr>modifiedAt = mt, md_size = sz\<rparr>"
      by (simp add: getFileMetadata_stat)
    from b md show "processedFiles svc' p =
        Some \<lparr>pf_filePath = p, lastModifiedAt = mt, lastSize = sz,
              lastLineCount = (case processedFiles svc p of None \<Rightarrow> 0 | Some x \<Rightarrow> lastLineCount x) +
                length (filter (\<lambda>e. filePath e = p) (entries result)),
              processedAt = now\<rparr>"
      unfolding svc' by (simp add: updateProcessedFilesFromScan_at saveEntries_other_fields)
    from b md show "claude_processed_files (repository svc') p =
        Some \<lparr>pf_filePath = p, lastModifiedAt = mt, lastSize = sz,
              lastLineCount = (case processedFiles svc p of None \<Rightarrow> 0 | Some x \<Rightarrow> lastLineCount x) +
                length (filter (\<lambda>e. filePath e = p) (entries result)),
              processedAt = now\<rparr>"
      unfolding svc' by (simp add: updateProcessedFilesFromScan_at saveEntries_other_fields)
  }
  {
    assume c: "filter (\<lambda>e. filePath e = q) (entries result) = []"
    then show "processedFiles svc' q = processedFiles svc q"
      unfolding svc' by (simp add: updateProcessedFilesFromScan_at saveEntries_other_fields)
    from c show "claude_processed_files (repository svc') q = claude_processed_files (repository svc) q"
      unfolding svc' by (simp add: updateProcessedFilesFromScan_at saveEntries_other_fields)
  }
qed


subsection \<open>The three triggers on the example host\<close>

lemma demo_findJSONL:
  "findJSONLFiles (demo_host c mt sz) (getProjectsDir (demo_host c mt sz) ''/home/u/.claude'') =
     [demo_file]"
  by (simp add: getProjectsDir_def demo_host_def)

lemma demo_metadata:
  "getFileMetadata (demo_host c mt sz) demo_file = Some \<lparr>modifiedAt = mt, md_size = sz\<rparr>"
  by (simp add: getFileMetadata_def demo_stat)

lemma demo_scanAll_A:
  "scanAllJSONLFiles demo_rt (demo_host (lineA @ [LF]) 1000 100) = resultA"
  by (simp add: scanAllJSONLFiles_def Let_def demo_dirs demo_findJSONL scanFileFull_def demo_stat
      demo_projectPath demo_parse_A emptyScanResult_def resultA_def)

lemma demo_scanModified_A:
  "scanModifiedFiles demo_rt (demo_host (lineA @ [LF]) 1000 100) Map.empty = resultA"
  by (simp add: scanModifiedFiles_def Let_def demo_dirs demo_findJSONL scanFileModified_def
      demo_stat demo_projectPath demo_parse_A emptyScanResult_def resultA_def)

lemma demo_save_A:
  "saveEntries [entryA] empty_db =
     (empty_db\<lparr>claude_log_entries := [entryA], write_log := [SavedEntries [entryA]]\<rparr>, None)"
  by (simp add: saveEntries_cases empty_db_def insert_or_replace_def)

lemma demo_scanAndImport_A:
  "snd (scanAndImport demo_rt (demo_host (lineA @ [LF]) 1000 100) h' now svc0) = Inr resultA"
  by (simp add: scanAndImport_cases demo_scanAll_A svc0_def resultA_def demo_save_A)

lemma demo_incrementalScan_A:
  "snd (incrementalScan demo_rt (demo_host (lineA @ [LF]) 1000 100) h' now svc0) = Inr resultA"
  by (simp add: incrementalScan_cases svc0_def demo_scanModified_A resultA_def demo_save_A)

lemma demo_processModifiedFile_A:
  "snd (processModifiedFile demo_rt (demo_host (lineA @ [LF]) 1000 100) h' now demo_file svc0) =
     Inr (Some resultA)"
  by (simp add: processModifiedFile_cases svc0_def demo_metadata demo_scanModified_A
      resultA_def demo_save_A)

lemma watermark_advanced_example:
  "snd (scanAndImport demo_rt (demo_host (lineA @ [LF]) 1000 100)
          (demo_host (lineA @ [LF]) 1000 100) 5000 svc0) = Inr resultA \<and>
   snd (incrementalScan demo_rt (demo_host (lineA @ [LF]) 1000 100)
          (demo_host (lineA @ [LF]) 1000 100) 5000 svc0) = Inr resultA \<and>
   snd (processModifiedFile demo_rt (demo_host (lineA @ [LF]) 1000 100)
          (demo_host (lineA @ [LF]) 1000 100) 5000 demo_file svc0) = Inr (Some resultA) \<and>
   filter (\<lambda>e. filePath e = demo_file) (entries resultA) \<noteq> [] \<and>
   stat (demo_host (lineA @ [LF]) 1000 100) demo_file = Inr (1000, 100) \<and>
   filter (\<lambda>e. filePath e = ''/x.jsonl'') (entries resultA) = [] \<and>
   processedFiles (fst (scanAndImport demo_rt (demo_host (lineA @ [LF]) 1000 100)
          (demo_host (lineA @ [LF]) 1000 100) 5000 svc0)) demo_file = Some wmA \<and>
   claude_processed_files (repository (fst (incrementalScan demo_rt
          (demo_host (lineA @ [LF]) 1000 100)
          (demo_host (lineA @ [LF]) 1000 100) 5000 svc0))) demo_file = Some wmA \<and>
   processedFiles (fst (processModifiedFile demo_rt (demo_host (lineA @ [LF]) 1000 100)
          (demo_host (lineA @ [LF]) 1000 100) 5000 demo_file svc0)) demo_file = Some wmA \<and>
   processedFiles (fst (processModifiedFile demo_rt (demo_host (lineA @ [LF]) 1000 100)
          (demo_host (lineA @ [LF]) 1000 100) 5000 demo_file svc0)) ''/x.jsonl'' = None"
proof -
  let ?h = "demo_host (lineA @ [LF]) 1000 100"
  let ?s1 = "scanAndImport demo_rt ?h ?h 5000 svc0"
  let ?s2 = "incrementalScan demo_rt ?h ?h 5000 svc0"
  let ?s3 = "processModifiedFile demo_rt ?h ?h 5000 demo_file svc0"
  have r1: "(fst ?s1, Inr resultA) = ?s1"
    using demo_scanAndImport_A [of ?h 5000] by (metis prod.collapse)
  have r2: "(fst ?s2, Inr resultA) = ?s2"
    using demo_incrementalScan_A [of ?h 5000] by (metis prod.collapse)
  have r3: "(fst ?s3, Inr (Some resultA)) = ?s3"
    using demo_processModifiedFile_A [of ?h 5000] by (metis prod.collapse)
  have f: "filter (\<lambda>e. filePath e = demo_file) (entries resultA) \<noteq> []"
    "length (filter (\<lambda>e. filePath e = demo_file) (entries resultA)) = 1"
    "filter (\<lambda>e. filePath e = ''/x.jsonl'') (entries resultA) = []"
    by (simp_all add: resultA_def entryA_def demo_file_def)
  have st: "stat ?h demo_file = Inr (1000, 100)" by (simp add: demo_stat)
  have p0: "processedFiles svc0 demo_file = None" "processedFiles svc0 ''/x.jsonl'' = None"
    by (simp_all add: svc0_def)
  have w: "\<lparr>pf_filePath = demo_file, lastModifiedAt = 1000, lastSize = 100,
            lastLineCount = 0 + 1, processedAt = 5000\<rparr> = wmA"
    by (simp add: wmA_def)
  note T = watermark_advanced_for_files_with_entries
  from T [of "fst ?s1" resultA demo_rt ?h ?h 5000 svc0 demo_file demo_file 1000 100 "''/x.jsonl''"]
    r1 f st p0 w
  have c1: "processedFiles (fst ?s1) demo_file = Some wmA" by simp
  from T [of "fst ?s2" resultA demo_rt ?h ?h 5000 svc0 demo_file demo_file 1000 100 "''/x.jsonl''"]
    r2 f st p0 w
  have c2: "claude_processed_files (repository (fst ?s2)) demo_file = Some wmA" by simp
  from T [of "fst ?s3" resultA demo_rt ?h ?h 5000 svc0 demo_file demo_file 1000 100 "''/x.jsonl''"]
    r3 f st p0 w
  have c3: "processedFiles (fst ?s3) demo_file = Some wmA"
    "processedFiles (fst ?s3) ''/x.jsonl'' = None" by simp_all
  from c1 c2 c3 f st demo_scanAndImport_A [of ?h 5000] demo_incrementalScan_A [of ?h 5000]
    demo_processModifiedFile_A [of ?h 5000]
  show ?thesis by blast
qed


lemma demo_parse_blank_from1:
  "parseJSONLContentFromLine demo_rt (lineA @ [LF, LF]) demo_file ''app1'' 2000 (Suc 0) =
     \<lparr>pr_entries = [], pr_errors = [], lineCount = 3\<rparr>"
  by (simp add: parseJSONLContentFromLine_def str_split_line LF_notin_lines blank_line)

lemma demo_scanModified_blank:
  "scanModifiedFiles demo_rt (demo_host (lineA @ [LF, LF]) 2000 101) (processedFiles svcA) =
     \<lparr>entries = [], filesProcessed = 1, filesSkipped = 0, entriesFound = 0,
      errors = [], configDirsUsed = [''/home/u/.claude'']\<rparr>"
  by (simp add: scanModifiedFiles_def Let_def demo_dirs demo_findJSONL scanFileModified_def
      demo_stat demo_projectPath demo_parse_blank_from1 emptyScanResult_def svcA_def wmA_def)

text \<open>
  Claim C1. The claim asks for the watermark of every processed file to advance to the
  post-scan mtime and size, also when the scan found no new entry for it. The program
  takes the files to update from the entries of the scan result, so a processed file
  without a new entry is left out. The example file has been scanned up to its first
  line; then a blank line is appended, which changes its size and mtime. The incremental
  scan processes the file and finds no new entry, and the watermark stays at the old
  mtime and size, in memory and in the table, although the metadata can be read.
\<close>

theorem watermark_not_advanced_without_entries:
  "filesProcessed (scanModifiedFiles demo_rt (demo_host (lineA @ [LF, LF]) 2000 101)
      (processedFiles svcA)) = 1 \<and>
   entries (scanModifiedFiles demo_rt (demo_host (lineA @ [LF, LF]) 2000 101)
      (processedFiles svcA)) = [] \<and>
   snd (incrementalScan demo_rt (demo_host (lineA @ [LF, LF]) 2000 101)
      (demo_host (lineA @ [LF, LF]) 2000 101) 6000 svcA) =
     Inr (scanModifiedFiles demo_rt (demo_host (lineA @ [LF, LF]) 2000 101) (processedFiles svcA)) \<and>
   stat (demo_host (lineA @ [LF, LF]) 2000 101) demo_file = Inr (2000, 101) \<and>
   processedFiles (fst (incrementalScan demo_rt (demo_host (lineA @ [LF, LF]) 2000 101)
      (demo_host (lineA @ [LF, LF]) 2000 101) 6000 svcA)) demo_file = Some wmA \<and>
   claude_processed_files (repository (fst (incrementalScan demo_rt
      (demo_host (lineA @ [LF, LF]) 2000 101)
      (demo_host (lineA @ [LF, LF]) 2000 101) 6000 svcA))) demo_file = Some wmA \<and>
   lastModifiedAt wmA = 1000 \<and> lastSize wmA = 100"
proof -
  let ?h = "demo_host (lineA @ [LF, LF]) 2000 101"
  have i: "incrementalScan demo_rt ?h ?h 6000 svcA =
      (svcA, Inr (scanModifiedFiles demo_rt ?h (processedFiles svcA)))"
    by (simp add: incrementalScan_cases demo_scanModified_blank saveEntries_empty
        updateProcessedFilesFromScan_def)
  have "processedFiles svcA demo_file = Some wmA"
    "claude_processed_files (repository svcA) demo_file = Some wmA"
    by (simp_all add: svcA_def)
  moreover have "lastModifiedAt wmA = 1000" "lastSize wmA = 100" by (simp_all add: wmA_def)
  ultimately show ?thesis
    by (simp add: i demo_scanModified_blank demo_stat)
qed


subsection \<open>The order of the writes\<close>

lemma updateOneFile_log:
  "\<exists>marks. write_log (repository (updateOneFile h' now svc (fp, n))) =
            write_log (repository svc) @ map MarkedProcessed marks \<and>
          pf_filePath ` set marks \<subseteq> {fp}"
proof (cases "getFileMetadata h' fp")
  case None
  then have "write_log (repository (updateOneFile h' now svc (fp, n))) =
      write_log (repository svc) @ map MarkedProcessed []"
    by (simp add: updateOneFile_def)
  then show ?thesis by (intro exI [of _ "[]"]) simp
next
  case (Some md)
  let ?w = "\<lparr>pf_filePath = fp, lastModifiedAt = modifiedAt md, lastSize = md_size md,
             lastLineCount = (case processedFiles svc fp of None \<Rightarrow> 0 | Some x \<Rightarrow> lastLineCount x) + n,
             processedAt = now\<rparr>"
  from Some have "write_log (repository (updateOneFile h' now svc (fp, n))) =
      write_log (repository svc) @ map MarkedProcessed [?w]"
    by (simp add: updateOneFile_def markFileProcessed_def Let_def)
  then show ?thesis by (intro exI [of _ "[?w]"]) simp
qed

lemma fold_updateOneFile_log:
  "\<exists>marks. write_log (repository (foldl (updateOneFile h' now) svc fes)) =
            write_log (repository svc) @ map MarkedProcessed marks \<and>
          pf_filePath ` set marks \<subseteq> fst ` set fes"
proof (induction fes arbitrary: svc)
  case Nil
  show ?case by (intro exI [of _ "[]"]) simp
next
  case (Cons fe fes)
  obtain fp n where fe: "fe = (fp, n)" by (cases fe)
  from updateOneFile_log [of h' now svc fp n] obtain m1 where
    m1: "write_log (repository (updateOneFile h' now svc (fp, n))) =
           write_log (repository svc) @ map MarkedProcessed m1"
        "pf_filePath ` set m1 \<subseteq> {fp}" by blast
  from Cons.IH [of "updateOneFile h' now svc (fp, n)"] obtain m2 where
    m2: "write_log (repository (foldl (updateOneFile h' now) (updateOneFile h' now svc (fp, n)) fes)) =
           write_log (repository (updateOneFile h' now svc (fp, n))) @ map MarkedProcessed m2"
        "pf_filePath ` set m2 \<subseteq> fst ` set fes" by blast
  show ?case
  proof (intro exI [of _ "m1 @ m2"] conjI)
    show "write_log (repository (foldl (updateOneFile h' now) svc (fe # fes))) =
            write_log (repository svc) @ map MarkedProcessed (m1 @ m2)"
      by (simp add: fe m1(1) m2(1))
    show "pf_filePath ` set (m1 @ m2) \<subseteq> fst ` set (fe # fes)"
      using m1(2) m2(2) by (auto simp: fe)
  qed
qed

lemma fileEntries_keys:
  "fst ` set (foldl countEntry [] es) = filePath ` set es"
proof -
  have "p \<in> fst ` set (foldl countEntry [] es) \<longleftrightarrow> p \<in> filePath ` set es" for p
  proof -
    have "p \<in> fst ` set (foldl countEntry [] es) \<longleftrightarrow> map_of (foldl countEntry [] es) p \<noteq> None"
      by (simp add: map_of_eq_None_iff)
    also have "\<dots> \<longleftrightarrow> filter (\<lambda>e. filePath e = p) es \<noteq> []"
      using fileEntries_of_result [of es p] by simp
    also have "\<dots> \<longleftrightarrow> p \<in> filePath ` set es"
      by (auto simp: filter_empty_conv)
    finally show ?thesis .
  qed
  then show ?thesis by blast
qed

lemma updateProcessedFilesFromScan_log:
  "\<exists>marks. write_log (repository (updateProcessedFilesFromScan h' now result svc)) =
            write_log (repository svc) @ map MarkedProcessed marks \<and>
          (\<forall>w\<in>set marks. \<exists>e\<in>set (entries result). filePath e = pf_filePath w)"
proof -
  from fold_updateOneFile_log [of h' now svc "foldl countEntry [] (entries result)"]
  obtain marks where
    m: "write_log (repository (foldl (updateOneFile h' now) svc (foldl countEntry [] (entries result)))) =
          write_log (repository svc) @ map MarkedProcessed marks"
       "pf_filePath ` set marks \<subseteq> fst ` set (foldl countEntry [] (entries result))" by blast
  from m(2) have "\<forall>w\<in>set marks. \<exists>e\<in>set (entries result). filePath e = pf_filePath w"
    unfolding fileEntries_keys by force
  with m(1) show ?thesis
    by (intro exI [of _ marks]) (simp add: updateProcessedFilesFromScan_def Let_def)
qed

lemma upsert_fold_uuids:
  "uuid ` set (foldl (\<lambda>rs e. insert_or_replace e rs) rows es) = uuid ` set rows \<union> uuid ` set es"
proof (induction es arbitrary: rows)
  case Nil
  show ?case by simp
next
  case (Cons e es)
  have "uuid ` set (insert_or_replace e rows) = uuid ` set rows \<union> {uuid e}"
    by (auto simp: insert_or_replace_def)
  with Cons.IH [of "insert_or_replace e rows"] show ?case by auto
qed

lemma saveEntries_persists:
  "snd (saveEntries es db) = None \<Longrightarrow> e \<in> set es \<Longrightarrow>
     \<exists>r\<in>set (claude_log_entries (fst (saveEntries es db))). uuid r = uuid e"
proof -
  assume ok: "snd (saveEntries es db) = None" and e: "e \<in> set es"
  then have "claude_log_entries (fst (saveEntries es db)) =
      foldl (\<lambda>rs e. insert_or_replace e rs) (claude_log_entries db) es"
    by (auto simp: saveEntries_cases split: if_splits)
  moreover from e have "uuid e \<in> uuid ` set (foldl (\<lambda>rs e. insert_or_replace e rs) (claude_log_entries db) es)"
    unfolding upsert_fold_uuids by simp
  ultimately show ?thesis by force
qed

lemma saveEntries_log:
  "snd (saveEntries es db) = None \<Longrightarrow>
     write_log (fst (saveEntries es db)) =
       write_log db @ (if es = [] then [] else [SavedEntries es])"
  by (auto simp: saveEntries_cases split: if_splits)

text \<open>
  Claim C3. When the batch write of a full or of an incremental scan throws, the scan
  ends with that exception and the service is left as it was: the in-memory map and both
  tables are unchanged, so no watermark has advanced and the next scan meets the same
  data. When the scan returns a result, the writes it has committed are, in order, the
  one batch of its entries (if it has any) and then the watermark rows, each for a file
  that has entries in this batch; and every entry of the result is in the table under
  its \<open>uuid\<close>.
\<close>

theorem failed_save_keeps_watermarks:
  "(snd (saveEntries (entries (scanAllJSONLFiles rt h)) (repository svc)) = Some err \<longrightarrow>
      scanAndImport rt h h' now svc = (svc, Inl err)) \<and>
   (snd (saveEntries (entries (scanModifiedFiles rt h (processedFiles svc))) (repository svc)) =
      Some err \<longrightarrow>
      incrementalScan rt h h' now svc = (svc, Inl err)) \<and>
   ((s', Inr result) = scanAndImport rt2 h2 h2' now2 s \<or>
    (s', Inr result) = incrementalScan rt2 h2 h2' now2 s \<longrightarrow>
      (\<exists>marks.
         write_log (repository s') =
           write_log (repository s) @
           (if entries result = [] then [] else [SavedEntries (entries result)]) @
           map MarkedProcessed marks \<and>
         (\<forall>w\<in>set marks. \<exists>e\<in>set (entries result). filePath e = pf_filePath w)) \<and>
      (\<forall>e\<in>set (entries result).
         \<exists>r\<in>set (claude_log_entries (repository s')). uuid r = uuid e))"
proof (intro conjI impI)
  assume "snd (saveEntries (entries (scanAllJSONLFiles rt h)) (repository svc)) = Some err"
  then show "scanAndImport rt h h' now svc = (svc, Inl err)"
    by (cases "saveEntries (entries (scanAllJSONLFiles rt h)) (repository svc)")
      (simp add: scanAndImport_cases)
next
  assume "snd (saveEntries (entries (scanModifiedFiles rt h (processedFiles svc))) (repository svc)) =
      Some err"
  then show "incrementalScan rt h h' now svc = (svc, Inl err)"
    by (cases "saveEntries (entries (scanModifiedFiles rt h (processedFiles svc))) (repository svc)")
      (simp add: incrementalScan_cases)
next
  assume a: "(s', Inr result) = scanAndImport rt2 h2 h2' now2 s \<or>
    (s', Inr result) = incrementalScan rt2 h2 h2' now2 s"
  then have "(s', Inr result) = scanAndImport rt2 h2 h2' now2 s \<or>
    (s', Inr result) = incrementalScan rt2 h2 h2' now2 s \<or>
    (s', Inr (Some result)) = processModifiedFile rt2 h2 h2' now2 [] s" by blast
  from scan_success_form [OF this]
  have ok: "snd (saveEntries (entries result) (repository s)) = None"
    and s': "s' = updateProcessedFilesFromScan h2' now2 result
                  (s\<lparr>repository := fst (saveEntries (entries result) (repository s))\<rparr>)"
    by simp_all
  let ?mid = "s\<lparr>repository := fst (saveEntries (entries result) (repository s))\<rparr>"
  from updateProcessedFilesFromScan_log [of h2' now2 result ?mid] obtain marks where
    m: "write_log (repository s') = write_log (repository ?mid) @ map MarkedProcessed marks"
       "\<forall>w\<in>set marks. \<exists>e\<in>set (entries result). filePath e = pf_filePath w"
    unfolding s' by blast
  have "write_log (repository ?mid) =
      write_log (repository s) @ (if entries result = [] then [] else [SavedEntries (entries result)])"
    using saveEntries_log [OF ok] by simp
  with m show "\<exists>marks.
         write_log (repository s') =
           write_log (repository s) @
           (if entries result = [] then [] else [SavedEntries (entries result)]) @
           map MarkedProcessed marks \<and>
         (\<forall>w\<in>set marks. \<exists>e\<in>set (entries result). filePath e = pf_filePath w)"
    by (intro exI [of _ marks]) simp
  show "\<forall>e\<in>set (entries result).
         \<exists>r\<in>set (claude_log_entries (repository s')). uuid r = uuid e"
  proof
    fix e assume "e \<in> set (entries result)"
    from saveEntries_persists [OF ok this]
    show "\<exists>r\<in>set (claude_log_entries (repository s')). uuid r = uuid e"
      unfolding s' by (simp add: updateProcessedFilesFromScan_log_entries)
  qed
qed


theorem failed_save_keeps_watermarks_witness:
  "snd (saveEntries (entries (scanAllJSONLFiles demo_rt (demo_host (lineA @ [LF]) 1000 100)))
      (repository svcF)) = Some SQLiteError \<and>
   snd (saveEntries (entries (scanModifiedFiles demo_rt (demo_host (lineA @ [LF]) 1000 100)
      (processedFiles svcF))) (repository svcF)) = Some SQLiteError \<and>
   scanAndImport demo_rt (demo_host (lineA @ [LF]) 1000 100)
      (demo_host (lineA @ [LF]) 1000 100) 5000 svcF = (svcF, Inl SQLiteError) \<and>
   incrementalScan demo_rt (demo_host (lineA @ [LF]) 1000 100)
      (demo_host (lineA @ [LF]) 1000 100) 5000 svcF = (svcF, Inl SQLiteError) \<and>
   snd (scanAndImport demo_rt (demo_host (lineA @ [LF]) 1000 100)
      (demo_host (lineA @ [LF]) 1000 100) 5000 svc0) = Inr resultA \<and>
   (\<exists>marks. write_log (repository (fst (scanAndImport demo_rt (demo_host (lineA @ [LF]) 1000 100)
      (demo_host (lineA @ [LF]) 1000 100) 5000 svc0))) =
        [SavedEntries [entryA]] @ map MarkedProcessed marks) \<and>
   (\<exists>r\<in>set (claude_log_entries (repository (fst (scanAndImport demo_rt
      (demo_host (lineA @ [LF]) 1000 100) (demo_host (lineA @ [LF]) 1000 100) 5000 svc0)))).
      uuid r = uuid entryA)"
proof -
  let ?h = "demo_host (lineA @ [LF]) 1000 100"
  let ?s1 = "scanAndImport demo_rt ?h ?h 5000 svc0"
  have f1: "snd (saveEntries (entries (scanAllJSONLFiles demo_rt ?h)) (repository svcF)) =
      Some SQLiteError"
    by (simp add: demo_scanAll_A resultA_def saveEntries_cases svcF_def)
  have f2: "snd (saveEntries (entries (scanModifiedFiles demo_rt ?h (processedFiles svcF)))
      (repository svcF)) = Some SQLiteError"
    by (simp add: svcF_def demo_scanModified_A resultA_def saveEntries_cases)
  have r1: "(fst ?s1, Inr resultA) = ?s1"
    using demo_scanAndImport_A [of ?h 5000] by (metis prod.collapse)
  have e: "entries resultA = [entryA]" "write_log (repository svc0) = []"
    by (simp_all add: resultA_def svc0_def empty_db_def)
  note T = failed_save_keeps_watermarks [of demo_rt ?h svcF SQLiteError ?h 5000
      "fst ?s1" resultA demo_rt ?h ?h 5000 svc0]
  from T f1 have c1: "scanAndImport demo_rt ?h ?h 5000 svcF = (svcF, Inl SQLiteError)" by blast
  from T f2 have c2: "incrementalScan demo_rt ?h ?h 5000 svcF = (svcF, Inl SQLiteError)" by blast
  from T r1 have c3: "(\<exists>marks.
         write_log (repository (fst ?s1)) =
           write_log (repository svc0) @
           (if entries resultA = [] then [] else [SavedEntries (entries resultA)]) @
           map MarkedProcessed marks \<and>
         (\<forall>w\<in>set marks. \<exists>e\<in>set (entries resultA). filePath e = pf_filePath w)) \<and>
      (\<forall>e\<in>set (entries resultA).
         \<exists>r\<in>set (claude_log_entries (repository (fst ?s1))). uuid r = uuid e)"
    by blast
  from c3 have c4: "\<exists>marks. write_log (repository (fst ?s1)) =
        [SavedEntries [entryA]] @ map MarkedProcessed marks"
    by (auto simp: e)
  from c3 have c5: "\<exists>r\<in>set (claude_log_entries (repository (fst ?s1))). uuid r = uuid entryA"
    by (simp add: e)
  from f1 f2 c1 c2 c4 c5 demo_scanAndImport_A [of ?h 5000] show ?thesis by blast
qed


subsection \<open>The token total\<close>






text \<open>
  The example line \<open>lineC\<close> has the counters \<open>2^53\<close> and 1: the program's total is
  \<open>2^53\<close>, one less than the sum of the integers.
\<close>

lemma excess_bits_example: "excess_bits 9007199254740993 = 1"
  by (subst excess_bits.simps, simp, subst excess_bits.simps, simp)

lemma double_plus_rounds: "double_plus 9007199254740992 1 = 9007199254740992"
  by (simp add: double_plus_def double_round_def Let_def excess_bits_example)

lemma excess_bits_2_53: "excess_bits 9007199254740992 = 1"
  by (subst excess_bits.simps, simp, subst excess_bits.simps, simp)

lemma double_plus_2_53: "double_plus 9007199254740992 0 = 9007199254740992"
  by (simp add: double_plus_def double_round_def Let_def excess_bits_2_53)

lemma trim_lineC: "trim lineC = lineC"
  by (simp add: trim_def lineC_def is_ws_def)

lemma parseLine_C:
  "parseLine demo_rt lineC demo_file ''app1'' 1000 lineNo =
     (Some \<lparr>uuid = ''c'', sessionId = ''s1'', projectPath = ''app1'',
            timestamp = 1704067200000, role = ''unknown'', model = None,
            inputTokens = 9007199254740992, outputTokens = 1, cacheCreationInputTokens = 0,
            cacheReadInputTokens = 0, totalTokens = 9007199254740992, costUsd = 0,
            gitBranch = None, cwd = None, filePath = demo_file, fileModifiedAt = 1000\<rparr>, None)"
proof -
  have ne: "lineC \<noteq> lineA" "lineC \<noteq> lineB" "lineC \<noteq> []"
    by (simp_all add: lineA_def lineB_def lineC_def)
  have "double_plus (double_plus (double_plus 9007199254740992 1) 0) 0 = 9007199254740992"
    by (simp add: double_plus_rounds double_plus_2_53)
  then show ?thesis
    by (simp add: parseLine_def trim_lineC ne demo_rt_def rawC_def falsy_def str_of_def
        or_zero_def or_null_def)
qed



subsection \<open>Incremental scans\<close>

lemma str_split_unlines:
  "\<forall>l\<in>set ls. LF \<notin> set l \<Longrightarrow> str_split LF (concat (map (\<lambda>l. l @ [LF]) ls)) = ls @ [[]]"
  by (induction ls) (simp_all add: str_split_line)

text \<open>Whether a line gives an entry depends on the runtime and the line only.\<close>

lemma parseLine_valid_iff:
  "fst (parseLine rt l fp pp m n) \<noteq> None \<longleftrightarrow>
     trim l \<noteq> [] \<and>
     (\<exists>raw. JSON_parse rt (trim l) = Inr raw \<and>
        \<not> (falsy (raw_uuid raw) \<or> falsy (raw_sessionId raw) \<or> falsy (raw_timestamp raw)) \<and>
        Date_getTime rt (str_of (raw_timestamp raw)) \<noteq> None)"
proof (cases "trim l = []")
  case True
  then show ?thesis by (simp add: parseLine_blank)
next
  case ne: False
  show ?thesis
  proof (cases "JSON_parse rt (trim l)")
    case (Inl msg)
    with ne show ?thesis by (simp add: parseLine_syntax_error)
  next
    case (Inr raw)
    show ?thesis
    proof (cases "falsy (raw_uuid raw) \<or> falsy (raw_sessionId raw) \<or> falsy (raw_timestamp raw)")
      case True
      with ne Inr have "parseLine rt l fp pp m n =
          (None, Some \<lparr>err_filePath = fp, err_line = n,
             err_error = ''Missing required fields (uuid, sessionId, or timestamp)''\<rparr>)"
        by (rule parseLine_missing)
      with Inr True show ?thesis by auto
    next
      case nf: False
      show ?thesis
      proof (cases "Date_getTime rt (str_of (raw_timestamp raw))")
        case None
        with ne Inr nf show ?thesis by (simp add: parseLine_bad_timestamp)
      next
        case (Some ts)
        with ne Inr nf show ?thesis by (simp add: parseLine_def Let_def)
      qed
    qed
  qed
qed

lemma parseLine_valid_indep:
  "fst (parseLine rt l fp pp m n) \<noteq> None \<Longrightarrow> fst (parseLine rt l fp' pp' m' n') \<noteq> None"
  unfolding parseLine_valid_iff .

lemma parseJSONLContent_entries:
  "pr_entries (parseJSONLContent rt content fp pp mtime) =
     fst (parse_lines rt fp pp mtime 0 (str_split LF content))"
  by (simp add: parseJSONLContent_def split: prod.splits)

lemma parseJSONLContentFromLine_entries:
  "pr_entries (parseJSONLContentFromLine rt content fp pp mtime k) =
     fst (parse_lines rt fp pp mtime k (drop k (str_split LF content)))"
  by (simp add: parseJSONLContentFromLine_def Let_def split: prod.splits)

lemma parse_lines_all_valid:
  "\<forall>l\<in>set ls. fst (parseLine rt l fp0 pp0 m0 n0) \<noteq> None \<Longrightarrow>
     length (fst (parse_lines rt fp pp m i (ls @ [[]]))) = length ls"
proof (induction ls arbitrary: i)
  case Nil
  show ?case by (simp add: blank_line)
next
  case (Cons l ls)
  from Cons.prems have "fst (parseLine rt l fp0 pp0 m0 n0) \<noteq> None" by simp
  then have "fst (parseLine rt l fp pp m (Some (i + 1))) \<noteq> None"
    by (rule parseLine_valid_indep)
  then obtain e err where p: "parseLine rt l fp pp m (Some (i + 1)) = (Some e, err)"
    by (cases "parseLine rt l fp pp m (Some (i + 1))") auto
  from Cons.prems have "length (fst (parse_lines rt fp pp m (Suc i) (ls @ [[]]))) = length ls"
    by (intro Cons.IH) simp
  with p show ?case by (auto split: prod.splits)
qed

lemma scanFileModified_new_filePath:
  "e \<in> set (entries (scanFileModified rt h cds pfs emptyScanResult f)) \<Longrightarrow> filePath e = f"
proof -
  assume "e \<in> set (entries (scanFileModified rt h cds pfs emptyScanResult f))"
  from scanFileModified_new_entries_from [OF this]
  obtain l pp mtime n where "parseLine rt l f pp mtime n = (Some e, None)" by blast
  from parseLine_Some [OF this] show ?thesis by blast
qed

lemma filter_concat_by_file:
  fixes g :: "string \<Rightarrow> ParsedLogEntry list"
  assumes own: "\<And>f e. e \<in> set (g f) \<Longrightarrow> filePath e = f"
  shows "length (filter (\<lambda>e. filePath e = fp) (concat (map g fs))) =
           count_list fs fp * length (g fp)"
proof (induction fs)
  case Nil
  show ?case by simp
next
  case (Cons f fs)
  have "filter (\<lambda>e. filePath e = fp) (g f) = (if f = fp then g f else [])"
    using own by (auto simp: filter_empty_conv intro: filter_True)
  with Cons show ?case by simp
qed

lemma scanFileModified_appended:
  assumes st: "stat h fp = Inr (mt, sz)"
    and rd: "readFile h fp = Inr (concat (map (\<lambda>l. l @ [LF]) (old @ new)))"
    and pf: "pfs fp = Some pf" "lastLineCount pf = length old" "lastSize pf \<noteq> sz"
    and nl: "\<forall>l\<in>set (old @ new). LF \<notin> set l"
    and valid: "\<forall>l\<in>set new. fst (parseLine rt l fp0 pp0 m0 n0) \<noteq> None"
  shows "length (entries (scanFileModified rt h cds pfs emptyScanResult fp)) = length new"
proof -
  let ?content = "concat (map (\<lambda>l. l @ [LF]) (old @ new))"
  let ?pp = "extractProjectPath h fp cds"
  have sp: "str_split LF ?content = old @ new @ [[]]"
    using str_split_unlines [OF nl] by simp
  show ?thesis
  proof (cases "old = []")
    case True
    from sp True have "str_split LF ?content = new @ [[]]" by simp
    then have "length (pr_entries (parseJSONLContent rt ?content fp ?pp mt)) = length new"
      using parse_lines_all_valid [OF valid, of fp ?pp mt 0]
      by (simp only: parseJSONLContent_entries)
    with st rd pf True show ?thesis
      by (simp add: scanFileModified_def Let_def emptyScanResult_def)
  next
    case False
    from sp have "drop (length old) (str_split LF ?content) = new @ [[]]" by simp
    then have "length (pr_entries (parseJSONLContentFromLine rt ?content fp ?pp mt (length old))) =
        length new"
      using parse_lines_all_valid [OF valid, of fp ?pp mt "length old"]
      by (simp only: parseJSONLContentFromLine_entries)
    with st rd pf False show ?thesis
      by (simp add: scanFileModified_def Let_def emptyScanResult_def)
  qed
qed

lemma scanModifiedFiles_appended:
  assumes "count_list (visited h) fp = 1"
    and "stat h fp = Inr (mt, sz)"
    and "readFile h fp = Inr (concat (map (\<lambda>l. l @ [LF]) (old @ new)))"
    and "pfs fp = Some pf" and "lastLineCount pf = length old" and "lastSize pf \<noteq> sz"
    and "\<forall>l\<in>set (old @ new). LF \<notin> set l"
    and "\<forall>l\<in>set new. fst (parseLine rt l fp0 pp0 m0 n0) \<noteq> None"
  shows "length (filter (\<lambda>e. filePath e = fp) (entries (scanModifiedFiles rt h pfs))) =
           length new"
proof -
  let ?g = "\<lambda>f. entries (scanFileModified rt h (getClaudeConfigDirs h) pfs emptyScanResult f)"
  have "length (filter (\<lambda>e. filePath e = fp) (concat (map ?g (visited h)))) =
      count_list (visited h) fp * length (?g fp)"
    by (rule filter_concat_by_file) (rule scanFileModified_new_filePath)
  also have "\<dots> = length (?g fp)" using assms(1) by simp
  also have "\<dots> = length new"
    using assms(2-8) by (rule scanFileModified_appended)
  finally show ?thesis by (simp add: scanModifiedFiles_entries)
qed


lemma scanFileModified_fresh:
  assumes st: "stat h fp = Inr (mt, sz)"
    and rd: "readFile h fp = Inr (concat (map (\<lambda>l. l @ [LF]) ls))"
    and pf: "pfs fp = None"
    and nl: "\<forall>l\<in>set ls. LF \<notin> set l"
    and valid: "\<forall>l\<in>set ls. fst (parseLine rt l fp0 pp0 m0 n0) \<noteq> None"
  shows "length (entries (scanFileModified rt h cds pfs emptyScanResult fp)) = length ls"
proof -
  let ?content = "concat (map (\<lambda>l. l @ [LF]) ls)"
  let ?pp = "extractProjectPath h fp cds"
  have "str_split LF ?content = ls @ [[]]" by (rule str_split_unlines [OF nl])
  then have "length (pr_entries (parseJSONLContent rt ?content fp ?pp mt)) = length ls"
    using parse_lines_all_valid [OF valid, of fp ?pp mt 0]
    by (simp only: parseJSONLContent_entries)
  with st rd pf show ?thesis
    by (simp add: scanFileModified_def Let_def emptyScanResult_def)
qed

lemma scanModifiedFiles_fresh:
  assumes "count_list (visited h) fp = 1"
    and "stat h fp = Inr (mt, sz)"
    and "readFile h fp = Inr (concat (map (\<lambda>l. l @ [LF]) ls))"
    and "pfs fp = None"
    and "\<forall>l\<in>set ls. LF \<notin> set l"
    and "\<forall>l\<in>set ls. fst (parseLine rt l fp0 pp0 m0 n0) \<noteq> None"
  shows "length (filter (\<lambda>e. filePath e = fp) (entries (scanModifiedFiles rt h pfs))) =
           length ls"
proof -
  let ?g = "\<lambda>f. entries (scanFileModified rt h (getClaudeConfigDirs h) pfs emptyScanResult f)"
  have "length (filter (\<lambda>e. filePath e = fp) (concat (map ?g (visited h)))) =
      count_list (visited h) fp * length (?g fp)"
    by (rule filter_concat_by_file) (rule scanFileModified_new_filePath)
  also have "\<dots> = length (?g fp)" using assms(1) by simp
  also have "\<dots> = length ls"
    using assms(2-6) by (rule scanFileModified_fresh)
  finally show ?thesis by (simp add: scanModifiedFiles_entries)
qed

text \<open>
  The whole sequence: a first incremental scan of a file that has no watermark yet, an
  append, and a second incremental scan with the map that the first one has left.
\<close>

text \<open>
  When the first scan of a file finds an entry on each of its lines, the watermark it
  leaves is the number of lines, and the scan after an append returns the entries of the
  appended lines only.
\<close>

lemma scan_append_rescan:
  assumes v1: "count_list (visited h1) fp = 1"
    and st1: "stat h1 fp = Inr (mt1, sz1)"
    and rd1: "readFile h1 fp = Inr (concat (map (\<lambda>l. l @ [LF]) old))"
    and fresh: "processedFiles svc fp = None"
    and post: "stat h1' fp = Inr (mt1', sz1')"
    and first: "(svc', Inr r) = incrementalScan rt h1 h1' now svc"
    and v2: "count_list (visited h2) fp = 1"
    and st2: "stat h2 fp = Inr (mt2, sz2)"
    and grown: "sz2 \<noteq> sz1'"
    and rd2: "readFile h2 fp = Inr (concat (map (\<lambda>l. l @ [LF]) (old @ new)))"
    and nl: "\<forall>l\<in>set (old @ new). LF \<notin> set l"
    and valid: "\<forall>l\<in>set (old @ new). fst (parseLine rt l fp0 pp0 m0 n0) \<noteq> None"
  shows "length (filter (\<lambda>e. filePath e = fp) (entries r)) = length old \<and>
         length (filter (\<lambda>e. filePath e = fp)
           (entries (scanModifiedFiles rt h2 (processedFiles svc')))) = length new"
proof -
  from nl valid have nlo: "\<forall>l\<in>set old. LF \<notin> set l"
    and vo: "\<forall>l\<in>set old. fst (parseLine rt l fp0 pp0 m0 n0) \<noteq> None"
    and vn: "\<forall>l\<in>set new. fst (parseLine rt l fp0 pp0 m0 n0) \<noteq> None" by simp_all
  from first have r: "r = scanModifiedFiles rt h1 (processedFiles svc)"
    by (cases "saveEntries (entries (scanModifiedFiles rt h1 (processedFiles svc))) (repository svc)")
      (auto simp: incrementalScan_cases split: option.splits)
  have n1: "length (filter (\<lambda>e. filePath e = fp) (entries r)) = length old"
    unfolding r
    by (rule scanModifiedFiles_fresh [where pfs = "processedFiles svc", OF v1 st1 rd1 fresh nlo vo])
  from first have "(svc', Inr r) = scanAndImport rt h1 h1' now svc \<or>
      (svc', Inr r) = incrementalScan rt h1 h1' now svc \<or>
      (svc', Inr (Some r)) = processModifiedFile rt h1 h1' now fp svc" by simp
  from scan_success_form [OF this]
  have svc': "svc' = updateProcessedFilesFromScan h1' now r
      (svc\<lparr>repository := fst (saveEntries (entries r) (repository svc))\<rparr>)" by simp
  have n2: "length (filter (\<lambda>e. filePath e = fp)
      (entries (scanModifiedFiles rt h2 (processedFiles svc')))) = length new"
  proof (cases "old = []")
    case True
    with n1 have "filter (\<lambda>e. filePath e = fp) (entries r) = []" by simp
    then have "processedFiles svc' fp = None"
      unfolding svc' by (simp add: updateProcessedFilesFromScan_at fresh)
    moreover from rd2 True have "readFile h2 fp = Inr (concat (map (\<lambda>l. l @ [LF]) new))"
      by simp
    moreover from nl have "\<forall>l\<in>set new. LF \<notin> set l" by simp
    ultimately show ?thesis
      using scanModifiedFiles_fresh [where pfs = "processedFiles svc'" and h = h2 and fp = fp
          and ls = new and rt = rt and ?fp0.0 = fp0 and ?pp0.0 = pp0 and ?m0.0 = m0
          and ?n0.0 = n0 and mt = mt2 and sz = sz2] v2 st2 vn
      by blast
  next
    case False
    with n1 have ne: "filter (\<lambda>e. filePath e = fp) (entries r) \<noteq> []" by auto
    let ?w = "\<lparr>pf_filePath = fp, lastModifiedAt = mt1', lastSize = sz1',
               lastLineCount = length old, processedAt = now\<rparr>"
    from ne post have w: "processedFiles svc' fp = Some ?w"
      unfolding svc'
      by (simp add: updateProcessedFilesFromScan_at getFileMetadata_stat fresh n1)
    have "lastLineCount ?w = length old" "lastSize ?w \<noteq> sz2" using grown by simp_all
    from scanModifiedFiles_appended [where pfs = "processedFiles svc'", OF v2 st2 rd2 w this nl vn]
    show ?thesis .
  qed
  from n1 n2 show ?thesis ..
qed


subsection \<open>The watermark is a count of entries\<close>

lemma parseLine_A_at:
  "parseLine demo_rt lineA demo_file ''app1'' m lineNo = (Some (entryA\<lparr>fileModifiedAt := m\<rparr>), None)"
  by (simp add: parseLine_def trim_lineA demo_lines_neq demo_rt_def rawA_def falsy_def str_of_def
      or_zero_def or_null_def entryA_def double_plus_exact)

lemma parseLine_B_at:
  "parseLine demo_rt lineB demo_file ''app1'' m lineNo = (Some (entryB\<lparr>fileModifiedAt := m\<rparr>), None)"
  by (simp add: parseLine_def trim_lineB demo_lines_neq demo_rt_def rawB_def falsy_def str_of_def
      or_zero_def or_null_def entryB_def double_plus_exact)

lemma LF_notin_lineBad: "LF \<notin> set lineBad"
  by (simp add: lineBad_def LF_def)

lemma parseLine_lineBad:
  "parseLine demo_rt lineBad fp pp m lineNo =
     (None, Some \<lparr>err_filePath = fp, err_line = lineNo,
                  err_error = ''JSON parse error: Unexpected token''\<rparr>)"
  by (simp add: parseLine_def lineBad_def trim_notjson parse_notjson)

lemma demo_scanModified_entries:
  "entries (scanModifiedFiles demo_rt (demo_host c mt sz) pfs) =
     entries (scanFileModified demo_rt (demo_host c mt sz) [''/home/u/.claude''] pfs
                emptyScanResult demo_file)"
  by (simp add: scanModifiedFiles_entries demo_visited demo_dirs)

lemma demo_rescan_entries:
  "pfs demo_file = Some wm \<Longrightarrow> lastSize wm \<noteq> sz \<Longrightarrow>
   lastLineCount wm > 0 \<Longrightarrow>
   entries (scanModifiedFiles demo_rt (demo_host c mt sz) pfs) =
     pr_entries (parseJSONLContentFromLine demo_rt c demo_file ''app1'' mt (lastLineCount wm))"
  by (simp add: demo_scanModified_entries scanFileModified_def demo_stat demo_projectPath
      emptyScanResult_def Let_def)

lemma demo_first_scan_entries:
  "pfs demo_file = None \<Longrightarrow>
   entries (scanModifiedFiles demo_rt (demo_host c mt sz) pfs) =
     pr_entries (parseJSONLContent demo_rt c demo_file ''app1'' mt)"
  by (simp add: demo_scanModified_entries scanFileModified_def demo_stat demo_projectPath
      emptyScanResult_def Let_def)

lemma demo_parse_bad_A:
  "parseJSONLContent demo_rt (lineBad @ LF # lineA @ [LF]) demo_file ''app1'' 1000 =
     \<lparr>pr_entries = [entryA],
      pr_errors = [\<lparr>err_filePath = demo_file, err_line = Some 1,
                    err_error = ''JSON parse error: Unexpected token''\<rparr>]\<rparr>"
  by (simp add: parseJSONLContent_def str_split_line LF_notin_lines LF_notin_lineBad
      parseLine_A parseLine_lineBad blank_line)

lemma demo_parse_bad_AB_from1:
  "pr_entries (parseJSONLContentFromLine demo_rt (lineBad @ LF # lineA @ LF # lineB @ [LF])
      demo_file ''app1'' 2000 (Suc 0)) =
     [entryA\<lparr>fileModifiedAt := 2000\<rparr>, entryB\<lparr>fileModifiedAt := 2000\<rparr>]"
  by (simp add: parseJSONLContentFromLine_def str_split_line LF_notin_lines LF_notin_lineBad
      parseLine_A_at parseLine_B_at blank_line)

lemma demo_parse_AB_from2:
  "pr_entries (parseJSONLContentFromLine demo_rt (lineA @ LF # lineB @ [LF])
      demo_file ''app1'' 2000 (Suc (Suc 0))) = []"
  by (simp add: parseJSONLContentFromLine_def str_split_line LF_notin_lines blank_line)

lemma incrementalScan_at:
  "snd (incrementalScan rt h h' now svc) = Inr result \<Longrightarrow>
   processedFiles (fst (incrementalScan rt h h' now svc)) p =
     (if filter (\<lambda>e. filePath e = p) (entries result) = [] then processedFiles svc p
      else (case getFileMetadata h' p of
              None \<Rightarrow> processedFiles svc p
            | Some md \<Rightarrow>
                Some \<lparr>pf_filePath = p, lastModifiedAt = modifiedAt md, lastSize = md_size md,
                      lastLineCount = (case processedFiles svc p of None \<Rightarrow> 0
                                       | Some x \<Rightarrow> lastLineCount x) +
                        length (filter (\<lambda>e. filePath e = p) (entries result)),
                      processedAt = now\<rparr>))"
  by (auto simp: incrementalScan_cases updateProcessedFilesFromScan_at
      split: prod.splits option.splits)

lemma scanAndImport_at:
  "snd (scanAndImport rt h h' now svc) = Inr result \<Longrightarrow>
   processedFiles (fst (scanAndImport rt h h' now svc)) p =
     (if filter (\<lambda>e. filePath e = p) (entries result) = [] then processedFiles svc p
      else (case getFileMetadata h' p of
              None \<Rightarrow> processedFiles svc p
            | Some md \<Rightarrow>
                Some \<lparr>pf_filePath = p, lastModifiedAt = modifiedAt md, lastSize = md_size md,
                      lastLineCount = (case processedFiles svc p of None \<Rightarrow> 0
                                       | Some x \<Rightarrow> lastLineCount x) +
                        length (filter (\<lambda>e. filePath e = p) (entries result)),
                      processedAt = now\<rparr>))"
  by (auto simp: scanAndImport_cases updateProcessedFilesFromScan_at
      split: prod.splits option.splits)


lemma demo_incrementalScan_bad_A:
  "snd (incrementalScan demo_rt (demo_host (lineBad @ LF # lineA @ [LF]) 1000 100) h' now svc0) =
     Inr \<lparr>entries = [entryA], filesProcessed = 1, filesSkipped = 0, entriesFound = 1,
          errors = [\<lparr>err_filePath = demo_file, err_line = Some 1,
                     err_error = ''JSON parse error: Unexpected token''\<rparr>],
          configDirsUsed = [''/home/u/.claude'']\<rparr>"
  by (simp add: incrementalScan_cases svc0_def scanModifiedFiles_def Let_def demo_dirs
      demo_findJSONL scanFileModified_def demo_stat demo_projectPath demo_parse_bad_A
      emptyScanResult_def demo_save_A)

lemma demo_scanAndImport_again:
  "snd (scanAndImport demo_rt (demo_host (lineA @ [LF]) 1000 100) h' now svcA) = Inr resultA"
  by (simp add: scanAndImport_cases demo_scanAll_A svcA_def resultA_def saveEntries_cases
      empty_db_def insert_or_replace_def)


text \<open>
  Claim C2. The claim asks for exactly \<open>M\<close> entries when \<open>M\<close> valid lines are appended
  to a file that was scanned and watermarked. The program resumes at the line whose index
  is the stored count, and the stored count is the prior count plus the number of entries
  found, not the number of lines read. Two runs on the example file, each with one
  appended line. In the first, the file has a line that is not JSON and a valid line;
  its first incremental scan leaves the count 1 for two lines, and the scan after the
  append returns two entries, the old one again and the new one. In the second, the
  file has one valid line and a watermark of one line; the full scan at start-up reads
  the line again and leaves the count 2, and the scan after the append returns no entry.
\<close>

theorem rescan_count_differs_from_appended:
  "str_split LF (lineBad @ LF # lineA @ [LF]) = [lineBad, lineA, []] \<and>
   processedFiles (fst (incrementalScan demo_rt (demo_host (lineBad @ LF # lineA @ [LF]) 1000 100)
      (demo_host (lineBad @ LF # lineA @ [LF]) 1000 100) 5000 svc0)) demo_file = Some wmA \<and>
   lastLineCount wmA = 1 \<and>
   entries (scanModifiedFiles demo_rt
      (demo_host (lineBad @ LF # lineA @ LF # lineB @ [LF]) 2000 200)
      (processedFiles (fst (incrementalScan demo_rt
         (demo_host (lineBad @ LF # lineA @ [LF]) 1000 100)
         (demo_host (lineBad @ LF # lineA @ [LF]) 1000 100) 5000 svc0)))) =
     [entryA\<lparr>fileModifiedAt := 2000\<rparr>, entryB\<lparr>fileModifiedAt := 2000\<rparr>] \<and>
   str_split LF (lineA @ [LF]) = [lineA, []] \<and>
   processedFiles svcA demo_file = Some wmA \<and>
   processedFiles (fst (scanAndImport demo_rt (demo_host (lineA @ [LF]) 1000 100)
      (demo_host (lineA @ [LF]) 1000 100) 6000 svcA)) demo_file =
     Some (wmA\<lparr>lastLineCount := 2, processedAt := 6000\<rparr>) \<and>
   entries (scanModifiedFiles demo_rt (demo_host (lineA @ LF # lineB @ [LF]) 2000 200)
      (processedFiles (fst (scanAndImport demo_rt (demo_host (lineA @ [LF]) 1000 100)
         (demo_host (lineA @ [LF]) 1000 100) 6000 svcA)))) = []"
proof -
  let ?h1 = "demo_host (lineBad @ LF # lineA @ [LF]) 1000 100"
  let ?hA = "demo_host (lineA @ [LF]) 1000 100"
  let ?s1 = "fst (incrementalScan demo_rt ?h1 ?h1 5000 svc0)"
  let ?s2 = "fst (scanAndImport demo_rt ?hA ?hA 6000 svcA)"
  have f: "filePath entryA = demo_file" by (simp add: entryA_def)
  have p0: "processedFiles svc0 demo_file = None" by (simp add: svc0_def)
  have w1: "processedFiles ?s1 demo_file = Some wmA"
    using incrementalScan_at [OF demo_incrementalScan_bad_A, of ?h1 5000 demo_file]
    by (simp add: f demo_metadata p0 wmA_def)
  have pA: "processedFiles svcA demo_file = Some wmA" by (simp add: svcA_def)
  have w2: "processedFiles ?s2 demo_file = Some (wmA\<lparr>lastLineCount := 2, processedAt := 6000\<rparr>)"
    using scanAndImport_at [OF demo_scanAndImport_again, of ?hA 6000 demo_file]
    by (simp add: f demo_metadata pA resultA_def) (simp add: wmA_def)
  have c1: "lastLineCount wmA = Suc 0" "lastSize wmA \<noteq> 200" by (simp_all add: wmA_def)
  have c2: "lastLineCount (wmA\<lparr>lastLineCount := 2, processedAt := 6000\<rparr>) = Suc (Suc 0)"
    "lastSize (wmA\<lparr>lastLineCount := 2, processedAt := 6000\<rparr>) \<noteq> 200" by (simp_all add: wmA_def)
  have r1: "entries (scanModifiedFiles demo_rt
      (demo_host (lineBad @ LF # lineA @ LF # lineB @ [LF]) 2000 200) (processedFiles ?s1)) =
     [entryA\<lparr>fileModifiedAt := 2000\<rparr>, entryB\<lparr>fileModifiedAt := 2000\<rparr>]"
    using demo_rescan_entries [where pfs = "processedFiles ?s1" and wm = wmA and sz = 200
        and mt = 2000 and c = "lineBad @ LF # lineA @ LF # lineB @ [LF]"] w1
    by (simp add: c1 demo_parse_bad_AB_from1)
  have r2: "entries (scanModifiedFiles demo_rt (demo_host (lineA @ LF # lineB @ [LF]) 2000 200)
      (processedFiles ?s2)) = []"
    using demo_rescan_entries [where pfs = "processedFiles ?s2"
        and wm = "wmA\<lparr>lastLineCount := 2, processedAt := 6000\<rparr>" and sz = 200
        and mt = 2000 and c = "lineA @ LF # lineB @ [LF]"] w2
    by (simp add: c1 c2 demo_parse_AB_from2)
  have s: "str_split LF (lineBad @ LF # lineA @ [LF]) = [lineBad, lineA, []]"
    "str_split LF (lineA @ [LF]) = [lineA, []]"
    by (simp_all add: str_split_line LF_notin_lines LF_notin_lineBad)
  from w1 w2 r1 r2 s pA c1 show ?thesis by simp
qed



section \<open>Scans in flight\<close>

text \<open>
  Resuming a scan twice in a row, with nothing in between, is \<open>incrementalScan\<close>.
\<close>

lemma incrementalScan_resume_twice:
  "(case incrementalScan_resume rt h h' now Scanning svc of
      (stage, s) \<Rightarrow> incrementalScan_resume rt h h' now stage s) =
   (case incrementalScan rt h h' now svc of (s', r) \<Rightarrow> (Finished r, s'))"
  by (simp add: incrementalScan_resume_def incrementalScan_def Let_def
      split: prod.splits option.splits)

lemma dispatch_TimerFired:
  "dispatch rt h h' now p TimerFired = p\<lparr>scansStarted := scansStarted p @ [Scanning]\<rparr>"
  by (simp add: dispatch_def)

lemma demo_resume_Scanning:
  "processedFiles svc = Map.empty \<Longrightarrow> insert_fails (repository svc) = (\<lambda>e. False) \<Longrightarrow>
   incrementalScan_resume demo_rt (demo_host (lineA @ [LF]) 1000 100) h' now Scanning svc =
     (Updating resultA, svc\<lparr>repository := fst (saveEntries [entryA] (repository svc))\<rparr>)"
  by (simp add: incrementalScan_resume_def demo_scanModified_A resultA_def saveEntries_cases)

lemma saveEntries_keeps:
  "processedFiles (svc\<lparr>repository := fst (saveEntries es (repository svc))\<rparr>) = processedFiles svc"
  "insert_fails (fst (saveEntries es db)) = insert_fails db"
  "claude_processed_files (fst (saveEntries es db)) = claude_processed_files db"
  by (simp_all add: saveEntries_other_fields)


text \<open>The timer starts a scan whatever the scans started before are doing.\<close>

lemma timer_starts_a_scan:
  "in_flight (dispatch rt h h' now p TimerFired) = Suc (in_flight p)"
  by (simp add: dispatch_def in_flight_def)

text \<open>
  Claim C10. The claim asks that a trigger that fires while a scan is in flight is
  skipped or queued. The callback of the periodic timer starts \<open>incrementalScan\<close>
  without looking at the scans in flight. On the example file of one valid line, with no
  watermark, the timer fires twice before the first scan is resumed: both scans are in
  flight at once, both have read the file from its start, and each adds its one entry to
  the count, which ends at 2 for a file of one line, in memory and in the table. The scan
  after a line is appended then starts past that line and returns no entry. One scan
  alone leaves the count 1.
\<close>

theorem periodic_scans_overlap:
  "in_flight (run_events demo_rt (demo_host (lineA @ [LF]) 1000 100)
      (demo_host (lineA @ [LF]) 1000 100) 5000
      [TimerFired, TimerFired, Resumed 0, Resumed 1]
      \<lparr>serviceState = svc0, scansStarted = []\<rparr>) = 2 \<and>
   scansStarted (run_events demo_rt (demo_host (lineA @ [LF]) 1000 100)
      (demo_host (lineA @ [LF]) 1000 100) 5000
      [TimerFired, TimerFired, Resumed 0, Resumed 1]
      \<lparr>serviceState = svc0, scansStarted = []\<rparr>) = [Updating resultA, Updating resultA] \<and>
   scansStarted (run_events demo_rt (demo_host (lineA @ [LF]) 1000 100)
      (demo_host (lineA @ [LF]) 1000 100) 5000
      [TimerFired, TimerFired, Resumed 0, Resumed 1, Resumed 0, Resumed 1]
      \<lparr>serviceState = svc0, scansStarted = []\<rparr>) =
     [Finished (Inr resultA), Finished (Inr resultA)] \<and>
   str_split LF (lineA @ [LF]) = [lineA, []] \<and>
   processedFiles (serviceState (run_events demo_rt (demo_host (lineA @ [LF]) 1000 100)
      (demo_host (lineA @ [LF]) 1000 100) 5000
      [TimerFired, TimerFired, Resumed 0, Resumed 1, Resumed 0, Resumed 1]
      \<lparr>serviceState = svc0, scansStarted = []\<rparr>)) demo_file =
     Some (wmA\<lparr>lastLineCount := 2\<rparr>) \<and>
   claude_processed_files (repository (serviceState (run_events demo_rt
      (demo_host (lineA @ [LF]) 1000 100) (demo_host (lineA @ [LF]) 1000 100) 5000
      [TimerFired, TimerFired, Resumed 0, Resumed 1, Resumed 0, Resumed 1]
      \<lparr>serviceState = svc0, scansStarted = []\<rparr>))) demo_file =
     Some (wmA\<lparr>lastLineCount := 2\<rparr>) \<and>
   entries (scanModifiedFiles demo_rt (demo_host (lineA @ LF # lineB @ [LF]) 2000 200)
      (processedFiles (serviceState (run_events demo_rt (demo_host (lineA @ [LF]) 1000 100)
         (demo_host (lineA @ [LF]) 1000 100) 5000
         [TimerFired, TimerFired, Resumed 0, Resumed 1, Resumed 0, Resumed 1]
         \<lparr>serviceState = svc0, scansStarted = []\<rparr>)))) = [] \<and>
   processedFiles (fst (incrementalScan demo_rt (demo_host (lineA @ [LF]) 1000 100)
      (demo_host (lineA @ [LF]) 1000 100) 5000 svc0)) demo_file = Some wmA \<and>
   lastLineCount wmA = 1"
proof -
  let ?h = "demo_host (lineA @ [LF]) 1000 100"
  let ?p0 = "\<lparr>serviceState = svc0, scansStarted = []\<rparr>"
  let ?d1 = "fst (saveEntries [entryA] (repository svc0))"
  let ?s1 = "svc0\<lparr>repository := ?d1\<rparr>"
  let ?s2 = "?s1\<lparr>repository := fst (saveEntries [entryA] (repository ?s1))\<rparr>"
  let ?s3 = "updateProcessedFilesFromScan ?h 5000 resultA ?s2"
  let ?s4 = "updateProcessedFilesFromScan ?h 5000 resultA ?s3"
  let ?p4 = "\<lparr>serviceState = ?s2, scansStarted = [Updating resultA, Updating resultA]\<rparr>"
  let ?p6 = "\<lparr>serviceState = ?s4,
              scansStarted = [Finished (Inr resultA), Finished (Inr resultA)]\<rparr>"
  have e0: "processedFiles svc0 = Map.empty" "insert_fails (repository svc0) = (\<lambda>e. False)"
    by (simp_all add: svc0_def empty_db_def)
  have e1: "processedFiles ?s1 = Map.empty" "insert_fails (repository ?s1) = (\<lambda>e. False)"
    by (simp_all add: saveEntries_keeps e0)
  have p2: "run_events demo_rt ?h ?h 5000 [TimerFired, TimerFired] ?p0 =
      \<lparr>serviceState = svc0, scansStarted = [Scanning, Scanning]\<rparr>"
    by (simp add: run_events_def dispatch_TimerFired)
  have p3: "dispatch demo_rt ?h ?h 5000 \<lparr>serviceState = svc0, scansStarted = [Scanning, Scanning]\<rparr>
      (Resumed 0) = \<lparr>serviceState = ?s1, scansStarted = [Updating resultA, Scanning]\<rparr>"
    by (simp add: dispatch_def demo_resume_Scanning [OF e0])
  have p4: "dispatch demo_rt ?h ?h 5000
      \<lparr>serviceState = ?s1, scansStarted = [Updating resultA, Scanning]\<rparr> (Resumed 1) = ?p4"
    by (simp add: dispatch_def demo_resume_Scanning [OF e1])
  have r4: "run_events demo_rt ?h ?h 5000 [TimerFired, TimerFired, Resumed 0, Resumed 1] ?p0 = ?p4"
    using p2 p3 p4 by (simp add: run_events_def)
  have p5: "dispatch demo_rt ?h ?h 5000 ?p4 (Resumed 0) =
      \<lparr>serviceState = ?s3, scansStarted = [Finished (Inr resultA), Updating resultA]\<rparr>"
    by (simp add: dispatch_def incrementalScan_resume_def)
  have p6: "dispatch demo_rt ?h ?h 5000
      \<lparr>serviceState = ?s3, scansStarted = [Finished (Inr resultA), Updating resultA]\<rparr>
      (Resumed 1) = ?p6"
    by (simp add: dispatch_def incrementalScan_resume_def)
  have r6: "run_events demo_rt ?h ?h 5000
      [TimerFired, TimerFired, Resumed 0, Resumed 1, Resumed 0, Resumed 1] ?p0 = ?p6"
    using p2 p3 p4 p5 p6 by (simp add: run_events_def)
  have f: "filter (\<lambda>e. filePath e = demo_file) (entries resultA) = [entryA]"
    by (simp add: resultA_def entryA_def)
  have m2: "processedFiles ?s2 demo_file = None"
    "claude_processed_files (repository ?s2) demo_file = None"
    by (simp_all add: saveEntries_keeps svc0_def empty_db_def)
  have m3: "processedFiles ?s3 demo_file = Some wmA"
    "claude_processed_files (repository ?s3) demo_file = Some wmA"
    using m2 by (simp_all add: updateProcessedFilesFromScan_at f demo_metadata wmA_def)
  have m4: "processedFiles ?s4 demo_file = Some (wmA\<lparr>lastLineCount := 2\<rparr>)"
    "claude_processed_files (repository ?s4) demo_file = Some (wmA\<lparr>lastLineCount := 2\<rparr>)"
    using m3 by (simp_all add: updateProcessedFilesFromScan_at f demo_metadata wmA_def)
  have c: "lastLineCount (wmA\<lparr>lastLineCount := 2\<rparr>) = Suc (Suc 0)"
    "lastSize (wmA\<lparr>lastLineCount := 2\<rparr>) \<noteq> 200" "lastLineCount wmA = 1"
    "lastSize wmA \<noteq> 200"
    by (simp_all add: wmA_def)
  have lost: "entries (scanModifiedFiles demo_rt (demo_host (lineA @ LF # lineB @ [LF]) 2000 200)
      (processedFiles ?s4)) = []"
    using demo_rescan_entries [where pfs = "processedFiles ?s4"
        and wm = "wmA\<lparr>lastLineCount := 2\<rparr>" and sz = 200
        and mt = 2000 and c = "lineA @ LF # lineB @ [LF]"] m4(1)
    by (simp add: c demo_parse_AB_from2)
  have q0: "processedFiles svc0 demo_file = None" by (simp add: svc0_def)
  have seq: "processedFiles (fst (incrementalScan demo_rt ?h ?h 5000 svc0)) demo_file = Some wmA"
    using incrementalScan_at [OF demo_incrementalScan_A, of ?h 5000 demo_file]
    by (simp add: f demo_metadata q0 wmA_def)
  have s: "str_split LF (lineA @ [LF]) = [lineA, []]"
    by (simp add: str_split_line LF_notin_lines)
  have fl: "in_flight ?p4 = 2" by (simp add: in_flight_def)
  show ?thesis
    unfolding r4 r6 using fl m4 lost seq s c(3) by simp
qed

end
